theory Spec2Isabelle
  imports Main "HOL-Library.AList" "HOL-Library.Sublist"
begin

section \<open>Python values, exceptions and string methods\<close>

text \<open>
  The module \<^verbatim>\<open>minio/xml_marshal.py\<close> is dynamically typed. The values it builds while
  decoding are \<^verbatim>\<open>None\<close>, strings, lists and dictionaries; a dictionary keeps its keys in
  insertion order, so it is an association list with distinct keys. A string is a list of
  characters with code points below 256.
\<close>

datatype pyval = PNone | PStr string | PList "pyval list" | PDict "(string \<times> pyval) list"

datatype exn = AttributeError | TypeError | KeyError | LookupError | ParseError

definition S3_NAMESPACE :: string where
  "S3_NAMESPACE = ''http://s3.amazonaws.com/doc/2006-03-01/''"

text \<open>
  \<^verbatim>\<open>str.replace(old, new)\<close>: every occurrence of \<^verbatim>\<open>old\<close>, found from the left and not
  overlapping, becomes \<^verbatim>\<open>new\<close>. For an empty \<^verbatim>\<open>old\<close> Python puts \<^verbatim>\<open>new\<close> before every
  character and at the end.
\<close>

function str_replace :: "string \<Rightarrow> string \<Rightarrow> string \<Rightarrow> string" where
  "str_replace old new s =
     (if old = [] then new @ concat (map (\<lambda>c. c # new) s)
      else if s = [] then []
      else if prefix old s then new @ str_replace old new (drop (length old) s)
      else hd s # str_replace old new (tl s))"
  by pat_completeness auto
termination
  by (relation "measure (\<lambda>(old, new, s). length s)") auto

declare str_replace.simps [simp del]

text \<open>
  \<^verbatim>\<open>str.strip()\<close> removes the white space at both ends. \<^verbatim>\<open>str.isspace\<close> holds, below code
  point 256, for 9 to 13, 28 to 32, 133 and 160.
\<close>

definition isspace :: "char \<Rightarrow> bool" where
  "isspace c =
     (let n = (of_char c :: nat)
      in (9 \<le> n \<and> n \<le> 13) \<or> (28 \<le> n \<and> n \<le> 32) \<or> n = 133 \<or> n = 160)"

definition strip :: "string \<Rightarrow> string" where
  "strip s = rev (dropWhile isspace (rev (dropWhile isspace s)))"

text \<open>
  \<^verbatim>\<open>str.lower()\<close>: below code point 256 the capital letters are 65 to 90 and 192 to 222
  without 215, and the small letter is 32 above the capital one.
\<close>

definition lower_char :: "char \<Rightarrow> char" where
  "lower_char c =
     (let n = (of_char c :: nat)
      in if (65 \<le> n \<and> n \<le> 90) \<or> (192 \<le> n \<and> n \<le> 222 \<and> n \<noteq> 215)
         then char_of (n + 32) else c)"

definition lower :: "string \<Rightarrow> string" where
  "lower s = map lower_char s"

text \<open>\<^verbatim>\<open>str(n)\<close> of an integer: its decimal digits, after a minus sign when negative.\<close>

definition digit_char :: "nat \<Rightarrow> char" where
  "digit_char d = char_of (48 + d)"

function str_nat :: "nat \<Rightarrow> string" where
  "str_nat n = (if n < 10 then [digit_char n] else str_nat (n div 10) @ [digit_char (n mod 10)])"
  by pat_completeness auto
termination
  by (relation "measure id") auto

declare str_nat.simps [simp del]

definition str_int :: "int \<Rightarrow> string" where
  "str_int i = (if i < 0 then CHR ''-'' # str_nat (nat (- i)) else str_nat (nat i))"

text \<open>
  Methods of a value that is not of the expected type raise: \<^verbatim>\<open>None.items()\<close> is an
  AttributeError, \<^verbatim>\<open>None['k'] = v\<close> a TypeError.
\<close>

definition py_items :: "pyval \<Rightarrow> exn + (string \<times> pyval) list" where
  "py_items d = (case d of PDict kvs \<Rightarrow> Inr kvs | _ \<Rightarrow> Inl AttributeError)"

definition py_setitem :: "pyval \<Rightarrow> string \<Rightarrow> pyval \<Rightarrow> exn + pyval" where
  "py_setitem d k v = (case d of PDict kvs \<Rightarrow> Inr (PDict (AList.update k v kvs)) | _ \<Rightarrow> Inl TypeError)"

definition py_update :: "pyval \<Rightarrow> (string \<times> pyval) list \<Rightarrow> exn + pyval" where
  "py_update d new =
     (case d of PDict kvs \<Rightarrow> Inr (PDict (fold (\<lambda>(k, v). AList.update k v) new kvs))
      | _ \<Rightarrow> Inl AttributeError)"

text \<open>
  \<^verbatim>\<open>dd = defaultdict(list)\<close> and \<^verbatim>\<open>dd[k].append(x)\<close>: a missing key is entered with the
  empty list, at the end, and \<^verbatim>\<open>x\<close> goes to the end of the key's list.
\<close>

definition dd_append :: "string \<Rightarrow> pyval \<Rightarrow> (string \<times> pyval list) list \<Rightarrow> (string \<times> pyval list) list" where
  "dd_append k x dd = AList.update k ((case map_of dd k of None \<Rightarrow> [] | Some xs \<Rightarrow> xs) @ [x]) dd"

section \<open>Element trees\<close>

text \<open>
  An \<^verbatim>\<open>xml.etree.ElementTree.Element\<close>: its tag, its attribute dictionary, its text
  (\<^verbatim>\<open>None\<close> or a string) and its children in order.
\<close>

datatype elem =
  Elem (tag: string) (attrib: "(string \<times> string) list") (elem_text: "string option") (children: "elem list")

section \<open>Decoding: \<^verbatim>\<open>etree_to_dict\<close> and \<^verbatim>\<open>xml_to_dict\<close>\<close>

text \<open>
  The two loops of \<^verbatim>\<open>etree_to_dict\<close> over the children's dictionaries differ in what they
  append only: \<^verbatim>\<open>[v]\<close> when the first child is a \<^verbatim>\<open>Rule\<close>, \<^verbatim>\<open>v\<close> otherwise. \<^verbatim>\<open>put\<close> is
  that choice.
\<close>

fun collect :: "(pyval \<Rightarrow> pyval) \<Rightarrow> pyval list \<Rightarrow> (string \<times> pyval list) list \<Rightarrow> exn + (string \<times> pyval list) list" where
  "collect put [] dd = Inr dd"
| "collect put (dc # dcs) dd =
     (case py_items dc of
        Inl e \<Rightarrow> Inl e
      | Inr kvs \<Rightarrow> collect put dcs (fold (\<lambda>(k, v). dd_append k (put v)) kvs dd))"

text \<open>
  \<^verbatim>\<open>etree_to_dict(elem)\<close> assigns to \<^verbatim>\<open>elem.tag\<close>, here and in every descendant, so the model
  returns the tree as the call leaves it next to the dictionary. The dictionary \<^verbatim>\<open>d\<close> of the
  source has the one key \<^verbatim>\<open>elem.tag\<close> throughout; \<^verbatim>\<open>d0\<close> to \<^verbatim>\<open>d3\<close> are the successive
  values of \<^verbatim>\<open>d[elem.tag]\<close>.
\<close>

fun etree_to_dict :: "elem \<Rightarrow> exn + (pyval \<times> elem)"
  and etree_to_dict_children :: "elem list \<Rightarrow> exn + (pyval list \<times> elem list)" where
  "etree_to_dict (Elem tg attrs txt chs) =
     (let ns = ''{'' @ S3_NAMESPACE @ ''}'';
          tg' = str_replace ns [] tg;
          d0 = (if attrs \<noteq> [] then PDict [] else PNone)
      in case (if chs \<noteq> [] then
                 (case etree_to_dict_children chs of
                    Inl e \<Rightarrow> Inl e
                  | Inr (dcs, chs') \<Rightarrow>
                      (case (if str_replace ns [] (tag (hd chs)) = ''Rule''
                             then collect (\<lambda>v. PList [v]) dcs []
                             else collect (\<lambda>v. v) dcs []) of
                         Inl e \<Rightarrow> Inl e
                       | Inr dd \<Rightarrow>
                           Inr (PDict (map (\<lambda>(k, v). (k, if length v = 1 then v ! 0 else PList v)) dd),
                                chs')))
               else Inr (d0, chs)) of
           Inl e \<Rightarrow> Inl e
         | Inr (d1, chs') \<Rightarrow>
             (case (if attrs \<noteq> []
                    then py_update d1 (map (\<lambda>(k, v). (''@'' @ k, PStr v)) attrs)
                    else Inr d1) of
                Inl e \<Rightarrow> Inl e
              | Inr d2 \<Rightarrow>
                  (case (case txt of
                           None \<Rightarrow> Inr d2
                         | Some s \<Rightarrow>
                             if s \<noteq> [] then
                               (if chs \<noteq> [] \<or> attrs \<noteq> [] then
                                  (if strip s \<noteq> [] then py_setitem d2 ''#text'' (PStr (strip s))
                                   else Inr d2)
                                else Inr (PStr (strip s)))
                             else Inr d2) of
                     Inl e \<Rightarrow> Inl e
                   | Inr d3 \<Rightarrow> Inr (PDict [(tg', d3)], Elem tg' attrs txt chs'))))"
| "etree_to_dict_children [] = Inr ([], [])"
| "etree_to_dict_children (c # cs) =
     (case etree_to_dict c of
        Inl e \<Rightarrow> Inl e
      | Inr (dc, c') \<Rightarrow>
          (case etree_to_dict_children cs of
             Inl e \<Rightarrow> Inl e
           | Inr (dcs, cs') \<Rightarrow> Inr (dc # dcs, c' # cs')))"

text \<open>
  \<^verbatim>\<open>xml_to_dict(in_xml)\<close> parses with \<^verbatim>\<open>ET.XML\<close> of the Python standard library, which is
  not part of the repository: the parser is the parameter \<^verbatim>\<open>XML\<close>, which returns the tree or
  raises.
\<close>

definition xml_to_dict :: "(string \<Rightarrow> exn + elem) \<Rightarrow> string \<Rightarrow> exn + pyval" where
  "xml_to_dict XML in_xml =
     (case XML in_xml of
        Inl e \<Rightarrow> Inl e
      | Inr elem \<Rightarrow> (case etree_to_dict elem of Inl e \<Rightarrow> Inl e | Inr (d, elem') \<Rightarrow> Inr d))"

text \<open>
  Names for what the statements below speak of: the tag with the namespace prefix replaced
  away (\<^verbatim>\<open>tag.replace(ns, '')\<close>), the value the returned dictionary binds to the stripped
  tag, \<^verbatim>\<open>d.get(k)\<close> on a decoded value, the keys at every depth of a decoded value, and the
  keys that \<^verbatim>\<open>etree_to_dict\<close> makes up itself (\<^verbatim>\<open>#text\<close> and \<^verbatim>\<open>@name\<close>).
\<close>

definition strip_ns :: "string \<Rightarrow> string" where
  "strip_ns tg = str_replace (''{'' @ S3_NAMESPACE @ ''}'') [] tg"

definition value_of :: "elem \<Rightarrow> pyval" where
  "value_of e = (case etree_to_dict e of Inr (PDict [(k, v)], e') \<Rightarrow> v | _ \<Rightarrow> PNone)"

definition py_get :: "pyval \<Rightarrow> string \<Rightarrow> pyval option" where
  "py_get d k = (case d of PDict kvs \<Rightarrow> map_of kvs k | _ \<Rightarrow> None)"

fun all_keys :: "pyval \<Rightarrow> string list" where
  "all_keys PNone = []"
| "all_keys (PStr s) = []"
| "all_keys (PList vs) = concat (map all_keys vs)"
| "all_keys (PDict kvs) = concat (map (\<lambda>kv. fst kv # all_keys (snd kv)) kvs)"

definition reserved_key :: "string \<Rightarrow> bool" where
  "reserved_key k = (k = ''#text'' \<or> (k \<noteq> [] \<and> hd k = CHR ''@''))"

text \<open>
  The tree a call of \<^verbatim>\<open>etree_to_dict\<close> leaves behind: every tag stripped, nothing else
  touched.
\<close>

fun strip_tags :: "elem \<Rightarrow> elem" where
  "strip_tags (Elem tg attrs txt chs) = Elem (strip_ns tg) attrs txt (map strip_tags chs)"

text \<open>
  A document whose elements use at most the protocol's namespace: the parser hands every tag
  over as the local name, or as the local name after \<^verbatim>\<open>{uri}\<close> with the protocol's URI. A
  name of XML has no brace in it. Nothing is asked of the attributes; \<^verbatim>\<open>attrib_names\<close> are
  the attribute names of a tree, at every depth, as the parser hands them over.
\<close>

definition local_name :: "string \<Rightarrow> bool" where
  "local_name s = (CHR ''{'' \<notin> set s)"

fun single_namespace :: "elem \<Rightarrow> bool" where
  "single_namespace (Elem tg attrs txt chs) =
     ((local_name tg \<or>
       (prefix (''{'' @ S3_NAMESPACE @ ''}'') tg \<and> local_name (drop (length (''{'' @ S3_NAMESPACE @ ''}'')) tg))) \<and>
      (\<forall>c \<in> set chs. single_namespace c))"

fun attrib_names :: "elem \<Rightarrow> string list" where
  "attrib_names (Elem tg attrs txt chs) = map fst attrs @ concat (map attrib_names chs)"

text \<open>
  The nested mapping of an element, after the description of the decoding: the children's
  values are collected by stripped tag into groups, the groups in the order in which their
  tags are first seen; a group of one is the value itself, a longer one the list; the
  attribute entries \<^verbatim>\<open>@name\<close> are merged in, then the entry \<^verbatim>\<open>#text\<close> when the stripped text
  is not empty; an element with neither children nor attributes is its stripped text, or
  \<^verbatim>\<open>None\<close> without text. Under a first child tagged \<^verbatim>\<open>Rule\<close> every child's value is the
  single-element list of its mapping. \<^verbatim>\<open>etree_to_dict\<close> is compared with this definition
  below.
\<close>

definition first_seen :: "'a list \<Rightarrow> 'a list" where
  "first_seen xs = fold (\<lambda>x seen. if x \<in> set seen then seen else seen @ [x]) xs []"

definition merge_entries :: "(string \<times> pyval) list \<Rightarrow> (string \<times> pyval) list \<Rightarrow> (string \<times> pyval) list" where
  "merge_entries entries d = fold (\<lambda>(k, v). AList.update k v) entries d"

fun nested_mapping :: "elem \<Rightarrow> pyval" where
  "nested_mapping (Elem tg attrs txt chs) =
     (let child_values =
            map (\<lambda>c. (strip_ns (tag c),
                       if strip_ns (tag (hd chs)) = ''Rule'' then PList [nested_mapping c]
                       else nested_mapping c)) chs;
          group = (\<lambda>t. map snd (filter (\<lambda>p. fst p = t) child_values));
          child_entries =
            map (\<lambda>t. (t, if length (group t) = 1 then hd (group t) else PList (group t)))
              (first_seen (map fst child_values));
          attr_entries = map (\<lambda>(k, v). (''@'' @ k, PStr v)) attrs;
          text_entries =
            (case txt of
               None \<Rightarrow> []
             | Some s \<Rightarrow> if strip s \<noteq> [] then [(''#text'', PStr (strip s))] else [])
      in if chs = [] \<and> attrs = [] then
           (case txt of None \<Rightarrow> PNone | Some s \<Rightarrow> if s = [] then PNone else PStr (strip s))
         else PDict (merge_entries text_entries (merge_entries attr_entries child_entries)))"

section \<open>Building and writing trees\<close>

text \<open>
  The marshallers build one tree from its root and keep references to nodes they have
  already hung into it. The state is the tree under \<^verbatim>\<open>root\<close>; a reference to a node is the
  path of child indices that leads to it from the root (\<^verbatim>\<open>[]\<close> is the root itself).
\<close>

type_synonym path = "nat list"

fun node_at :: "path \<Rightarrow> elem \<Rightarrow> elem option" where
  "node_at [] e = Some e"
| "node_at (i # p) (Elem tg attrs txt chs) = (if i < length chs then node_at p (chs ! i) else None)"

fun modify_at :: "path \<Rightarrow> (elem \<Rightarrow> elem) \<Rightarrow> elem \<Rightarrow> elem" where
  "modify_at [] f e = f e"
| "modify_at (i # p) f (Elem tg attrs txt chs) =
     (if i < length chs then Elem tg attrs txt (chs[i := modify_at p f (chs ! i)])
      else Elem tg attrs txt chs)"

definition Element :: "string \<Rightarrow> bool \<Rightarrow> elem" where
  "Element tg with_namespace =
     (if with_namespace then Elem tg [(''xmlns'', S3_NAMESPACE)] None [] else Elem tg [] None [])"

text \<open>
  \<^verbatim>\<open>SubElement(parent, tag, text)\<close> appends a new element to the children of \<^verbatim>\<open>parent\<close> and
  returns it: the model returns the new node's path and the tree. A path that leads to no
  node stands for no reference of the program; the tree is then returned as it is.
\<close>

definition SubElement :: "elem \<Rightarrow> path \<Rightarrow> string \<Rightarrow> string option \<Rightarrow> path \<times> elem" where
  "SubElement root parent tg txt =
     (case node_at parent root of
        None \<Rightarrow> (parent, root)
      | Some p \<Rightarrow>
          (parent @ [length (children p)],
           modify_at parent
             (\<lambda>e. Elem (tag e) (attrib e) (elem_text e) (children e @ [Elem tg [] txt []])) root))"

text \<open>
  Modelled from the spec: the writer behind \<^verbatim>\<open>get_xml_data\<close> is
  \<^verbatim>\<open>ElementTree.write(data, encoding=None, xml_declaration=False)\<close> of the Python standard
  library, which is not part of the repository. It writes no declaration, the attributes in
  the order of the dictionary, the children in their order, the text escaped (\<^verbatim>\<open>&\<close>, \<^verbatim>\<open><\<close>
  and \<^verbatim>\<open>>\<close>; in an attribute value also the double quote and the line feed), an element with
  neither text nor children as \<^verbatim>\<open><tag />\<close>, and, the encoding being US-ASCII, every
  character from code point 128 on as a character reference. Tags and attribute names are
  written as they are, which is what the library does for a name without a namespace in
  braces. The versions of the library differ in how an attribute value's tabs and carriage
  returns are written; the one attribute value the module writes, the namespace, has none.
\<close>

definition escape_cdata :: "string \<Rightarrow> string" where
  "escape_cdata s = str_replace ''>'' ''&gt;'' (str_replace ''<'' ''&lt;'' (str_replace ''&'' ''&amp;'' s))"

definition escape_attrib :: "string \<Rightarrow> string" where
  "escape_attrib s =
     str_replace [CHR 0x0A] ''&#10;''
       (str_replace [CHR 0x22] ''&quot;''
          (str_replace ''>'' ''&gt;'' (str_replace ''<'' ''&lt;'' (str_replace ''&'' ''&amp;'' s))))"

fun serialize_xml :: "elem \<Rightarrow> string" where
  "serialize_xml (Elem tg attrs txt chs) =
     ''<'' @ tg @
     concat (map (\<lambda>(k, v). '' '' @ k @ ''='' @ [CHR 0x22] @ escape_attrib v @ [CHR 0x22]) attrs) @
     (if (txt \<noteq> None \<and> txt \<noteq> Some []) \<or> chs \<noteq> [] then
        ''>'' @ (case txt of None \<Rightarrow> [] | Some s \<Rightarrow> escape_cdata s) @
        concat (map serialize_xml chs) @ ''</'' @ tg @ ''>''
      else '' />'')"

definition xmlcharrefreplace :: "string \<Rightarrow> string" where
  "xmlcharrefreplace s =
     concat (map (\<lambda>c. if (of_char c :: nat) < 128 then [c] else ''&#'' @ str_nat (of_char c) @ '';'') s)"

definition get_xml_data :: "elem \<Rightarrow> string" where
  "get_xml_data element = xmlcharrefreplace (serialize_xml element)"

section \<open>The marshallers\<close>

text \<open>
  \<^verbatim>\<open>xml_marshal_bucket_encryption(rules)\<close>: a rule is a dictionary of dictionaries of
  strings; \<^verbatim>\<open>rules[0]['ApplyServerSideEncryptionByDefault']\<close> raises \<^verbatim>\<open>KeyError\<close> when the
  key is missing, \<^verbatim>\<open>.get\<close> does not.
\<close>

type_synonym rule = "string \<rightharpoonup> (string \<rightharpoonup> string)"

definition xml_marshal_bucket_encryption :: "rule list \<Rightarrow> exn + string" where
  "xml_marshal_bucket_encryption rules =
     (let root = Element ''ServerSideEncryptionConfiguration'' False
      in if rules \<noteq> [] then
           (let (rule_element, root) = SubElement root [] ''Rule'' None;
                (apply_element, root) =
                   SubElement root rule_element ''ApplyServerSideEncryptionByDefault'' None
            in case (rules ! 0) ''ApplyServerSideEncryptionByDefault'' of
                 None \<Rightarrow> Inl KeyError
               | Some cfg \<Rightarrow>
                   (let (sse, root) =
                          SubElement root apply_element ''SSEAlgorithm''
                            (Some (case cfg ''SSEAlgorithm'' of None \<Rightarrow> ''AES256'' | Some a \<Rightarrow> a));
                        kms_text = cfg ''KMSMasterKeyID''
                    in if kms_text \<noteq> None \<and> kms_text \<noteq> Some [] then
                         (let (kms, root) = SubElement root apply_element ''KMSMasterKeyID'' kms_text
                          in Inr (get_xml_data root))
                       else Inr (get_xml_data root)))
         else Inr (get_xml_data root))"

text \<open>
  \<^verbatim>\<open>xml_marshal_select(opts)\<close> and the option objects it reads. An option object that is
  \<^verbatim>\<open>None\<close> is \<^verbatim>\<open>None\<close> here too. The fields of the output objects that have the name of a
  field of the CSV input carry the prefix \<^verbatim>\<open>out_\<close> or \<^verbatim>\<open>json_\<close>.
\<close>

record CSVInput =
  FileHeaderInfo :: string
  RecordDelimiter :: string
  FieldDelimiter :: string
  QuoteCharacter :: string
  QuoteEscapeCharacter :: string
  Comments :: string
  AllowQuotedRecordDelimiter :: string

record JSONInput =
  Type :: string

datatype ParquetInput = ParquetInput

record InputSerialization =
  compression_type :: string
  csv_input :: "CSVInput option"
  json_input :: "JSONInput option"
  parquet_input :: "ParquetInput option"

record CSVOutput =
  QuoteFields :: string
  out_RecordDelimiter :: string
  out_FieldDelimiter :: string
  out_QuoteCharacter :: string
  out_QuoteEscapeCharacter :: string

record JSONOutput =
  json_RecordDelimiter :: string

record OutputSerialization =
  csv_output :: "CSVOutput option"
  json_output :: "JSONOutput option"

record RequestProgress =
  enabled :: string

record SelectObjectOptions =
  expression :: string
  in_ser :: InputSerialization
  out_ser :: OutputSerialization
  req_progress :: RequestProgress

definition xml_marshal_select :: "SelectObjectOptions \<Rightarrow> string" where
  "xml_marshal_select opts =
     (let root = Element ''SelectObjectContentRequest'' False;
          (e1, root) = SubElement root [] ''Expression'' (Some (expression opts));
          (e2, root) = SubElement root [] ''ExpressionType'' (Some ''SQL'');
          (input_serialization, root) = SubElement root [] ''InputSerialization'' None;
          (e3, root) = SubElement root input_serialization ''CompressionType''
                         (Some (compression_type (in_ser opts)));
          root = (case csv_input (in_ser opts) of
                    None \<Rightarrow> root
                  | Some ci \<Rightarrow>
                      (let (csv, root) = SubElement root input_serialization ''CSV'' None;
                           (c1, root) = SubElement root csv ''FileHeaderInfo'' (Some (FileHeaderInfo ci));
                           (c2, root) = SubElement root csv ''RecordDelimiter'' (Some (RecordDelimiter ci));
                           (c3, root) = SubElement root csv ''FieldDelimiter'' (Some (FieldDelimiter ci));
                           (c4, root) = SubElement root csv ''QuoteCharacter'' (Some (QuoteCharacter ci));
                           (c5, root) = SubElement root csv ''QuoteEscapeCharacter''
                                          (Some (QuoteEscapeCharacter ci));
                           (c6, root) = SubElement root csv ''Comments'' (Some (Comments ci));
                           (c7, root) = SubElement root csv ''AllowQuotedRecordDelimiter''
                                          (Some (lower (AllowQuotedRecordDelimiter ci)))
                       in root));
          root = (case json_input (in_ser opts) of
                    None \<Rightarrow> root
                  | Some ji \<Rightarrow>
                      (let (json, root) = SubElement root input_serialization ''JSON'' None;
                           (j1, root) = SubElement root json ''Type'' (Some (Type ji))
                       in root));
          root = (case parquet_input (in_ser opts) of
                    None \<Rightarrow> root
                  | Some pi \<Rightarrow> snd (SubElement root input_serialization ''Parquet'' None));
          (output_serialization, root) = SubElement root [] ''OutputSerialization'' None;
          root = (case csv_output (out_ser opts) of
                    None \<Rightarrow> root
                  | Some co \<Rightarrow>
                      (let (csv, root) = SubElement root output_serialization ''CSV'' None;
                           (c1, root) = SubElement root csv ''QuoteFields'' (Some (QuoteFields co));
                           (c2, root) = SubElement root csv ''RecordDelimiter'' (Some (out_RecordDelimiter co));
                           (c3, root) = SubElement root csv ''FieldDelimiter'' (Some (out_FieldDelimiter co));
                           (c4, root) = SubElement root csv ''QuoteCharacter'' (Some (out_QuoteCharacter co));
                           (c5, root) = SubElement root csv ''QuoteEscapeCharacter''
                                          (Some (out_QuoteEscapeCharacter co))
                       in root));
          root = (case json_output (out_ser opts) of
                    None \<Rightarrow> root
                  | Some jo \<Rightarrow>
                      (let (json, root) = SubElement root output_serialization ''JSON'' None;
                           (j1, root) = SubElement root json ''RecordDelimiter'' (Some (json_RecordDelimiter jo))
                       in root));
          (request_progress, root) = SubElement root [] ''RequestProgress'' None;
          (e4, root) = SubElement root request_progress ''Enabled'' (Some (lower (enabled (req_progress opts))))
      in get_xml_data root)"

text \<open>\<^verbatim>\<open>xml_marshal_complete_multipart_upload(uploaded_parts)\<close>.\<close>

record UploadPart =
  part_number :: int
  etag :: string

definition xml_marshal_complete_multipart_upload :: "UploadPart list \<Rightarrow> string" where
  "xml_marshal_complete_multipart_upload uploaded_parts =
     (let root = Element ''CompleteMultipartUpload'' True;
          root = fold (\<lambda>uploaded_part root.
                         let (part, root) = SubElement root [] ''Part'' None;
                             (e1, root) = SubElement root part ''PartNumber''
                                            (Some (str_int (part_number uploaded_part)));
                             (e2, root) = SubElement root part ''ETag''
                                            (Some ([CHR 0x22] @ etag uploaded_part @ [CHR 0x22]))
                         in root)
                   uploaded_parts root
      in get_xml_data root)"

text \<open>\<^verbatim>\<open>xml_marshal_delete_objects(object_names)\<close>.\<close>

definition xml_marshal_delete_objects :: "string list \<Rightarrow> string" where
  "xml_marshal_delete_objects object_names =
     (let root = Element ''Delete'' False;
          (e1, root) = SubElement root [] ''Quiet'' (Some ''true'');
          root = fold (\<lambda>object_name root.
                         let (object_element, root) = SubElement root [] ''Object'' None;
                             (e2, root) = SubElement root object_element ''Key'' (Some object_name)
                         in root)
                   object_names root
      in get_xml_data root)"

section \<open>Facts about the string methods\<close>

lemma str_replace_notin:
  "old \<noteq> [] \<Longrightarrow> hd old \<notin> set s \<Longrightarrow> str_replace old new s = s"
proof (induction s)
  case Nil
  then show ?case by (simp add: str_replace.simps)
next
  case (Cons c s)
  from Cons.prems have "\<not> prefix old (c # s)"
    by (cases old) (auto simp: prefix_def)
  with Cons show ?case
    by (subst str_replace.simps) simp
qed

lemma str_replace_prefix:
  "old \<noteq> [] \<Longrightarrow> str_replace old new (old @ s) = new @ str_replace old new s"
  by (subst str_replace.simps) simp

lemma strip_ns_local: "local_name s \<Longrightarrow> strip_ns s = s"
  unfolding strip_ns_def local_name_def by (rule str_replace_notin) simp_all

lemma strip_ns_qualified:
  "local_name s \<Longrightarrow> strip_ns (''{'' @ S3_NAMESPACE @ ''}'' @ s) = s"
proof -
  assume l: "local_name s"
  have "strip_ns ((''{'' @ S3_NAMESPACE @ ''}'') @ s) = [] @ strip_ns s"
    unfolding strip_ns_def by (rule str_replace_prefix) simp
  with l show ?thesis by (simp add: strip_ns_local)
qed

section \<open>\<^verbatim>\<open>etree_to_dict\<close> always returns\<close>

text \<open>
  No call of \<^verbatim>\<open>etree_to_dict\<close> raises: it returns the dictionary with the one key, the
  stripped tag, and leaves the tree with every tag stripped.
\<close>

lemma collect_dicts:
  "collect put (map (\<lambda>c. PDict [(k c, v c)]) cs) dd = Inr (fold (\<lambda>c. dd_append (k c) (put (v c))) cs dd)"
  by (induction cs arbitrary: dd) (simp_all add: py_items_def)

lemma etree_shape:
  "\<exists>v. etree_to_dict e = Inr (PDict [(strip_ns (tag e), v)], strip_tags e)"
  and "\<exists>vs. length vs = length cs \<and>
     etree_to_dict_children cs = Inr (map2 (\<lambda>c v. PDict [(strip_ns (tag c), v)]) cs vs, map strip_tags cs)"
proof (induction e and cs rule: etree_to_dict_etree_to_dict_children.induct)
  case (1 tg attrs tx chs)
  show ?case
  proof (cases "chs = []")
    case True
    then show ?thesis
      by (cases tx) (auto simp: strip_ns_def py_update_def py_setitem_def Let_def)
  next
    case False
    with 1 obtain vs where vs: "length vs = length chs"
      "etree_to_dict_children chs = Inr (map2 (\<lambda>c v. PDict [(strip_ns (tag c), v)]) chs vs, map strip_tags chs)"
      by blast
    have m: "map2 (\<lambda>c v. PDict [(strip_ns (tag c), v)]) chs vs
          = map (\<lambda>p. PDict [(strip_ns (tag (fst p)), snd p)]) (zip chs vs)"
      by (simp add: case_prod_unfold)
    show ?thesis using False vs(2) unfolding m
      by (cases tx) (auto simp: strip_ns_def py_update_def py_setitem_def Let_def collect_dicts)
  qed
next
  case 2
  show ?case by simp
next
  case (3 c cs)
  from 3(1) obtain v where v: "etree_to_dict c = Inr (PDict [(strip_ns (tag c), v)], strip_tags c)" by blast
  from 3(2)[OF v refl] obtain vs where vs: "length vs = length cs"
    "etree_to_dict_children cs = Inr (map2 (\<lambda>c v. PDict [(strip_ns (tag c), v)]) cs vs, map strip_tags cs)"
    by blast
  have "length (v # vs) = length (c # cs) \<and>
     etree_to_dict_children (c # cs) =
       Inr (map2 (\<lambda>c v. PDict [(strip_ns (tag c), v)]) (c # cs) (v # vs), map strip_tags (c # cs))"
    using v vs by simp
  then show ?case by blast
qed

lemma etree_to_dict_eq:
  "etree_to_dict e = Inr (PDict [(strip_ns (tag e), value_of e)], strip_tags e)"
proof -
  obtain v where "etree_to_dict e = Inr (PDict [(strip_ns (tag e), v)], strip_tags e)"
    using etree_shape(1) by blast
  then show ?thesis by (simp add: value_of_def)
qed

lemma etree_to_dict_children_eq:
  "etree_to_dict_children cs =
     Inr (map (\<lambda>c. PDict [(strip_ns (tag c), value_of c)]) cs, map strip_tags cs)"
  by (induction cs) (simp_all add: etree_to_dict_eq)

lemma value_of_Elem:
  "value_of (Elem tg attrs tx chs) =
     (if chs = [] \<and> attrs = [] then
        (case tx of None \<Rightarrow> PNone | Some s \<Rightarrow> if s = [] then PNone else PStr (strip s))
      else
        PDict
          ((case tx of
              None \<Rightarrow> (\<lambda>d. d)
            | Some s \<Rightarrow> if strip s \<noteq> [] then AList.update ''#text'' (PStr (strip s)) else (\<lambda>d. d))
             (fold (\<lambda>(k, v). AList.update k v) (map (\<lambda>(k, v). (''@'' @ k, PStr v)) attrs)
               (map (\<lambda>(k, v). (k, if length v = 1 then v ! 0 else PList v))
                  (fold (\<lambda>c. dd_append (strip_ns (tag c))
                              ((if strip_ns (tag (hd chs)) = ''Rule'' then (\<lambda>v. PList [v]) else (\<lambda>v. v))
                                 (value_of c)))
                     chs [])))))"
  unfolding value_of_def[of "Elem tg attrs tx chs"]
  by (cases tx)
     (auto simp: etree_to_dict_children_eq collect_dicts strip_ns_def py_update_def py_setitem_def
        Let_def strip_def)

lemma value_of_not_list: "value_of e \<noteq> PList vs"
  by (cases e) (simp add: value_of_Elem split: option.splits)

section \<open>Looking a key up in the decoded value\<close>

lemma map_of_dd_append:
  "map_of (dd_append k x dd) t =
     (if t = k then Some ((case map_of dd k of None \<Rightarrow> [] | Some xs \<Rightarrow> xs) @ [x]) else map_of dd t)"
  by (simp add: dd_append_def update_conv')

lemma map_of_fold_dd_append:
  "map_of (fold (\<lambda>c. dd_append (k c) (f c)) cs dd) t =
     (if filter (\<lambda>c. k c = t) cs = [] then map_of dd t
      else Some ((case map_of dd t of None \<Rightarrow> [] | Some xs \<Rightarrow> xs) @ map f (filter (\<lambda>c. k c = t) cs)))"
proof (induction cs arbitrary: dd)
  case Nil
  show ?case by simp
next
  case (Cons c cs)
  show ?case
    by (simp add: Cons.IH map_of_dd_append)
qed

lemma map_of_fold_update_other:
  "t \<notin> fst ` set new \<Longrightarrow> map_of (fold (\<lambda>(k, v). AList.update k v) new kvs) t = map_of kvs t"
  by (induction new arbitrary: kvs) (auto simp: update_conv')

lemma map_of_collapse:
  "map_of (map (\<lambda>(k, v). (k, g v)) dd) t = map_option g (map_of dd t)"
  by (induction dd) auto

lemma py_get_child:
  assumes "\<not> reserved_key t"
  shows "py_get (value_of (Elem tg attrs tx chs)) t =
     (let put = (if strip_ns (tag (hd chs)) = ''Rule'' then (\<lambda>v. PList [v]) else (\<lambda>v. v));
          vs = map (\<lambda>c. put (value_of c)) (filter (\<lambda>c. strip_ns (tag c) = t) chs)
      in if vs = [] then None else if length vs = 1 then Some (vs ! 0) else Some (PList vs))"
proof -
  define put where "put = (if strip_ns (tag (hd chs)) = ''Rule'' then (\<lambda>v. PList [v]) else (\<lambda>v. v))"
  define occ where "occ = filter (\<lambda>c. strip_ns (tag c) = t) chs"
  define dd where "dd = fold (\<lambda>c. dd_append (strip_ns (tag c)) (put (value_of c))) chs []"
  define m where "m = map (\<lambda>(k, v). (k, if length v = 1 then v ! 0 else PList v)) dd"
  define a where "a = fold (\<lambda>(k, v). AList.update k v) (map (\<lambda>(k, v). (''@'' @ k, PStr v)) attrs) m"
  have t1: "t \<noteq> ''#text''" using assms by (simp add: reserved_key_def)
  have t2: "t \<notin> fst ` set (map (\<lambda>(k, v). (''@'' @ k, PStr v)) attrs)"
    using assms by (auto simp: reserved_key_def)
  have dd: "map_of dd t = (if occ = [] then None else Some (map (\<lambda>c. put (value_of c)) occ))"
    unfolding dd_def occ_def by (simp add: map_of_fold_dd_append)
  have m: "map_of m t = map_option (\<lambda>v. if length v = 1 then v ! 0 else PList v) (map_of dd t)"
    unfolding m_def by (rule map_of_collapse)
  have a: "map_of a t = map_of m t"
    unfolding a_def by (rule map_of_fold_update_other[OF t2])
  have v: "py_get (value_of (Elem tg attrs tx chs)) t = (if chs = [] \<and> attrs = [] then None else map_of a t)"
    unfolding value_of_Elem py_get_def a_def m_def dd_def put_def
    by (cases tx) (simp_all add: update_conv' t1)
  have e: "chs = [] \<Longrightarrow> occ = []" by (simp add: occ_def)
  show ?thesis
    unfolding v a m dd Let_def put_def[symmetric] occ_def[symmetric]
    using e by auto
qed

lemma map_of_fold_dd_hash:
  "\<forall>c \<in> set chs. strip_ns (tag c) \<noteq> ''#text'' \<Longrightarrow>
   map_of (fold (\<lambda>c. dd_append (strip_ns (tag c)) (f c)) chs []) ''#text'' = None"
  by (auto simp: map_of_fold_dd_append filter_empty_conv)

lemma not_reserved_Rule: "\<not> reserved_key ''Rule''"
  by (simp add: reserved_key_def)

section \<open>The claims about decoding\<close>

text \<open>
  C1 (as amended). Whether \<^verbatim>\<open>etree_to_dict\<close> wraps is decided per node by its first child:
  when the first child is tagged \<^verbatim>\<open>Rule\<close> (after stripping), every child tag that occurs
  exactly once under the node, \<^verbatim>\<open>Rule\<close> or not, is bound to the single-element list of that
  child's value; when the first child is not tagged \<^verbatim>\<open>Rule\<close>, a \<^verbatim>\<open>Rule\<close> child that occurs
  exactly once is bound to its value itself. With no \<^verbatim>\<open>Rule\<close> child there is no key
  \<^verbatim>\<open>Rule\<close>.
\<close>

theorem rule_wrapping_by_first_child:
  "(filter (\<lambda>c. strip_ns (tag c) = ''Rule'') chs = [] \<longrightarrow>
      py_get (value_of (Elem tg attrs tx chs)) ''Rule'' = None) \<and>
   (\<not> reserved_key t \<and> strip_ns (tag (hd chs)) = ''Rule'' \<and>
      filter (\<lambda>c. strip_ns (tag c) = t) chs = [c] \<longrightarrow>
      py_get (value_of (Elem tg attrs tx chs)) t = Some (PList [value_of c])) \<and>
   (strip_ns (tag (hd chs)) \<noteq> ''Rule'' \<and> filter (\<lambda>c. strip_ns (tag c) = ''Rule'') chs = [r] \<longrightarrow>
      py_get (value_of (Elem tg attrs tx chs)) ''Rule'' = Some (value_of r))"
  by (simp add: py_get_child not_reserved_Rule)

theorem rule_wrapping_by_first_child_witness:
  "py_get (value_of (Elem ''Tagging'' [] None [Elem ''TagSet'' [] None []])) ''Rule'' = None \<and>
   py_get (value_of (Elem ''LifecycleConfiguration'' [] None
                       [Elem ''Rule'' [] None [Elem ''ID'' [] (Some ''a'') []],
                        Elem ''Owner'' [] (Some ''o'') []])) ''Owner''
     = Some (PList [value_of (Elem ''Owner'' [] (Some ''o'') [])]) \<and>
   py_get (value_of (Elem ''ObjectLockConfiguration'' [] None
                       [Elem ''ObjectLockEnabled'' [] (Some ''Enabled'') [],
                        Elem ''Rule'' [] None [Elem ''Mode'' [] (Some ''GOVERNANCE'') []]])) ''Rule''
     = Some (value_of (Elem ''Rule'' [] None [Elem ''Mode'' [] (Some ''GOVERNANCE'') []]))"
proof -
  have h1: "filter (\<lambda>c. strip_ns (tag c) = ''Rule'') [Elem ''TagSet'' [] None []] = []"
    by code_simp
  have h2: "\<not> reserved_key ''Owner'' \<and>
      strip_ns (tag (hd [Elem ''Rule'' [] None [Elem ''ID'' [] (Some ''a'') []],
                         Elem ''Owner'' [] (Some ''o'') []])) = ''Rule'' \<and>
      filter (\<lambda>c. strip_ns (tag c) = ''Owner'')
        [Elem ''Rule'' [] None [Elem ''ID'' [] (Some ''a'') []], Elem ''Owner'' [] (Some ''o'') []]
        = [Elem ''Owner'' [] (Some ''o'') []]"
    by code_simp
  have h3: "strip_ns (tag (hd [Elem ''ObjectLockEnabled'' [] (Some ''Enabled'') [],
                        Elem ''Rule'' [] None [Elem ''Mode'' [] (Some ''GOVERNANCE'') []]])) \<noteq> ''Rule'' \<and>
      filter (\<lambda>c. strip_ns (tag c) = ''Rule'')
        [Elem ''ObjectLockEnabled'' [] (Some ''Enabled'') [],
         Elem ''Rule'' [] None [Elem ''Mode'' [] (Some ''GOVERNANCE'') []]]
        = [Elem ''Rule'' [] None [Elem ''Mode'' [] (Some ''GOVERNANCE'') []]]"
    by code_simp
  from h1 h2 h3
    rule_wrapping_by_first_child[where chs = "[Elem ''TagSet'' [] None []]" and tg = "''Tagging''"
      and attrs = "[]" and tx = None]
    rule_wrapping_by_first_child[where t = "''Owner''"
      and chs = "[Elem ''Rule'' [] None [Elem ''ID'' [] (Some ''a'') []], Elem ''Owner'' [] (Some ''o'') []]"
      and c = "Elem ''Owner'' [] (Some ''o'') []" and tg = "''LifecycleConfiguration''"
      and attrs = "[]" and tx = None]
    rule_wrapping_by_first_child[where
      chs = "[Elem ''ObjectLockEnabled'' [] (Some ''Enabled'') [],
              Elem ''Rule'' [] None [Elem ''Mode'' [] (Some ''GOVERNANCE'') []]]"
      and tg = "''ObjectLockConfiguration''" and attrs = "[]" and tx = None
      and r = "Elem ''Rule'' [] None [Elem ''Mode'' [] (Some ''GOVERNANCE'') []]"]
  show ?thesis by blast
qed

text \<open>
  The claim as stated fails where \<^verbatim>\<open>Rule\<close> is not the first child: the one \<^verbatim>\<open>Rule\<close> of an
  object-lock configuration is bound to its mapping, not to a list.
\<close>

theorem rule_not_first_counterexample:
  "etree_to_dict
     (Elem ''ObjectLockConfiguration'' [] None
        [Elem ''ObjectLockEnabled'' [] (Some ''Enabled'') [],
         Elem ''Rule'' [] None [Elem ''Mode'' [] (Some ''GOVERNANCE'') []]]) =
   Inr (PDict [(''ObjectLockConfiguration'',
                PDict [(''ObjectLockEnabled'', PStr ''Enabled''),
                       (''Rule'', PDict [(''Mode'', PStr ''GOVERNANCE'')])])],
        Elem ''ObjectLockConfiguration'' [] None
          [Elem ''ObjectLockEnabled'' [] (Some ''Enabled'') [],
           Elem ''Rule'' [] None [Elem ''Mode'' [] (Some ''GOVERNANCE'') []]])"
  by code_simp

text \<open>
  Under a first child tagged \<^verbatim>\<open>Rule\<close> every value is wrapped before the values of a tag are
  collected, so two \<^verbatim>\<open>Rule\<close> children are bound to a list of two single-element lists.
\<close>

lemma two_rules_evaluation:
  "etree_to_dict
     (Elem ''LifecycleConfiguration'' [] None
        [Elem ''Rule'' [] None [Elem ''ID'' [] (Some ''a'') []],
         Elem ''Rule'' [] None [Elem ''ID'' [] (Some ''b'') []]]) =
   Inr (PDict [(''LifecycleConfiguration'',
                PDict [(''Rule'', PList [PList [PDict [(''ID'', PStr ''a'')]],
                                         PList [PDict [(''ID'', PStr ''b'')]]])])],
        Elem ''LifecycleConfiguration'' [] None
          [Elem ''Rule'' [] None [Elem ''ID'' [] (Some ''a'') []],
           Elem ''Rule'' [] None [Elem ''ID'' [] (Some ''b'') []]])"
  by code_simp

text \<open>
  C2 (as amended). Under a node whose first child is not tagged \<^verbatim>\<open>Rule\<close>, a child tag that
  occurs exactly once is bound to that child's value, which is \<^verbatim>\<open>None\<close>, a string or a
  mapping and never a list; a child tag that occurs twice or more is bound to the list of the
  children's values in document order. The tag is any tag an element can have: it is not one
  of the keys \<^verbatim>\<open>#text\<close> and \<^verbatim>\<open>@name\<close>.
\<close>

theorem plain_tag_grouping:
  assumes "\<not> reserved_key t" and "strip_ns (tag (hd chs)) \<noteq> ''Rule''"
  shows "(filter (\<lambda>c. strip_ns (tag c) = t) chs = [c] \<longrightarrow>
            py_get (value_of (Elem tg attrs tx chs)) t = Some (value_of c) \<and>
            (\<forall>vs. value_of c \<noteq> PList vs)) \<and>
         (2 \<le> length (filter (\<lambda>c. strip_ns (tag c) = t) chs) \<longrightarrow>
            py_get (value_of (Elem tg attrs tx chs)) t =
              Some (PList (map value_of (filter (\<lambda>c. strip_ns (tag c) = t) chs))))"
  using assms by (auto simp: py_get_child value_of_not_list Let_def)

theorem plain_tag_grouping_witness:
  "py_get (value_of (Elem ''NotificationConfiguration'' [] None
                       [Elem ''TopicConfiguration'' [] None [Elem ''Id'' [] (Some ''1'') []],
                        Elem ''QueueConfiguration'' [] None [Elem ''Id'' [] (Some ''2'') []],
                        Elem ''TopicConfiguration'' [] None [Elem ''Id'' [] (Some ''3'') []]]))
      ''QueueConfiguration''
     = Some (value_of (Elem ''QueueConfiguration'' [] None [Elem ''Id'' [] (Some ''2'') []])) \<and>
   py_get (value_of (Elem ''NotificationConfiguration'' [] None
                       [Elem ''TopicConfiguration'' [] None [Elem ''Id'' [] (Some ''1'') []],
                        Elem ''QueueConfiguration'' [] None [Elem ''Id'' [] (Some ''2'') []],
                        Elem ''TopicConfiguration'' [] None [Elem ''Id'' [] (Some ''3'') []]]))
      ''TopicConfiguration''
     = Some (PList [value_of (Elem ''TopicConfiguration'' [] None [Elem ''Id'' [] (Some ''1'') []]),
                    value_of (Elem ''TopicConfiguration'' [] None [Elem ''Id'' [] (Some ''3'') []])])"
proof -
  let ?chs = "[Elem ''TopicConfiguration'' [] None [Elem ''Id'' [] (Some ''1'') []],
               Elem ''QueueConfiguration'' [] None [Elem ''Id'' [] (Some ''2'') []],
               Elem ''TopicConfiguration'' [] None [Elem ''Id'' [] (Some ''3'') []]]"
  have q: "\<not> reserved_key ''QueueConfiguration''" and t: "\<not> reserved_key ''TopicConfiguration''"
    by (simp_all add: reserved_key_def)
  have f: "strip_ns (tag (hd ?chs)) \<noteq> ''Rule''"
    by code_simp
  have oq: "filter (\<lambda>c. strip_ns (tag c) = ''QueueConfiguration'') ?chs =
              [Elem ''QueueConfiguration'' [] None [Elem ''Id'' [] (Some ''2'') []]]"
    by code_simp
  have ot: "filter (\<lambda>c. strip_ns (tag c) = ''TopicConfiguration'') ?chs =
              [Elem ''TopicConfiguration'' [] None [Elem ''Id'' [] (Some ''1'') []],
               Elem ''TopicConfiguration'' [] None [Elem ''Id'' [] (Some ''3'') []]]"
    by code_simp
  from plain_tag_grouping[OF q f, where c = "Elem ''QueueConfiguration'' [] None [Elem ''Id'' [] (Some ''2'') []]"
        and tg = "''NotificationConfiguration''" and attrs = "[]" and tx = None] oq
  have a: "py_get (value_of (Elem ''NotificationConfiguration'' [] None ?chs)) ''QueueConfiguration''
     = Some (value_of (Elem ''QueueConfiguration'' [] None [Elem ''Id'' [] (Some ''2'') []]))"
    by blast
  from plain_tag_grouping[OF t f, where tg = "''NotificationConfiguration''" and attrs = "[]" and tx = None]
  have b: "py_get (value_of (Elem ''NotificationConfiguration'' [] None ?chs)) ''TopicConfiguration''
     = Some (PList (map value_of (filter (\<lambda>c. strip_ns (tag c) = ''TopicConfiguration'') ?chs)))"
    unfolding ot by simp
  show ?thesis using a b unfolding ot by simp
qed

text \<open>
  The claim as stated fails under a node whose first child is tagged \<^verbatim>\<open>Rule\<close>: the one
  \<^verbatim>\<open>Role\<close> next to the \<^verbatim>\<open>Rule\<close> is bound to a list.
\<close>

theorem sibling_of_rule_counterexample:
  "etree_to_dict
     (Elem ''ReplicationConfiguration'' [] None
        [Elem ''Rule'' [] None [Elem ''Status'' [] (Some ''Enabled'') []],
         Elem ''Role'' [] (Some ''arn'') []]) =
   Inr (PDict [(''ReplicationConfiguration'',
                PDict [(''Rule'', PList [PDict [(''Status'', PStr ''Enabled'')]]),
                       (''Role'', PList [PStr ''arn''])])],
        Elem ''ReplicationConfiguration'' [] None
          [Elem ''Rule'' [] None [Elem ''Status'' [] (Some ''Enabled'') []],
           Elem ''Role'' [] (Some ''arn'') []])"
  by code_simp

text \<open>
  C3 (as amended). \<^verbatim>\<open>etree_to_dict\<close> returns a dictionary for every tree and changes the tree
  it is given in one way: the tag of every node becomes the tag with the namespace prefix
  replaced away. The attributes, the text and the children's number and order stay.
\<close>

theorem etree_to_dict_rewrites_tags:
  "(\<exists>d. etree_to_dict e = Inr (d, strip_tags e)) \<and>
   attrib (strip_tags e) = attrib e \<and> elem_text (strip_tags e) = elem_text e \<and>
   length (children (strip_tags e)) = length (children e) \<and>
   tag (strip_tags e) = strip_ns (tag e)"
  by (cases e) (simp add: etree_to_dict_eq)

text \<open>
  The claim as stated fails on any tree with a qualified tag: the tag after the call is not
  the tag before it.
\<close>

theorem tag_rewritten_counterexample:
  "etree_to_dict (Elem ''{http://s3.amazonaws.com/doc/2006-03-01/}LocationConstraint'' [] (Some ''us-west-1'') []) =
     Inr (PDict [(''LocationConstraint'', PStr ''us-west-1'')],
          Elem ''LocationConstraint'' [] (Some ''us-west-1'') []) \<and>
   tag (Elem ''LocationConstraint'' [] (Some ''us-west-1'') []) \<noteq>
   tag (Elem ''{http://s3.amazonaws.com/doc/2006-03-01/}LocationConstraint'' [] (Some ''us-west-1'') [])"
  by code_simp

text \<open>
  C4. For an element none of whose children is tagged \<^verbatim>\<open>#text\<close> (no element of a document
  is), the decoded value has the key \<^verbatim>\<open>#text\<close> exactly when the text is not empty after
  stripping and the element has attributes or children, and the key is then bound to the
  stripped text. An element with neither attributes nor children decodes to its stripped
  text, or to \<^verbatim>\<open>None\<close> when it has no text (\<^verbatim>\<open>None\<close> or the empty string).
\<close>

theorem text_key_iff:
  assumes "\<forall>c \<in> set chs. strip_ns (tag c) \<noteq> ''#text''"
  shows "(py_get (value_of (Elem tg attrs tx chs)) ''#text'' \<noteq> None \<longleftrightarrow>
            (\<exists>s. tx = Some s \<and> strip s \<noteq> []) \<and> (attrs \<noteq> [] \<or> chs \<noteq> [])) \<and>
         (\<forall>s. tx = Some s \<and> strip s \<noteq> [] \<and> (attrs \<noteq> [] \<or> chs \<noteq> []) \<longrightarrow>
            py_get (value_of (Elem tg attrs tx chs)) ''#text'' = Some (PStr (strip s))) \<and>
         (attrs = [] \<and> chs = [] \<longrightarrow>
            value_of (Elem tg attrs tx chs) =
              (case tx of None \<Rightarrow> PNone | Some s \<Rightarrow> if s = [] then PNone else PStr (strip s)))"
proof -
  define put where "put = (if strip_ns (tag (hd chs)) = ''Rule'' then (\<lambda>v. PList [v]) else (\<lambda>v. v))"
  define m where "m = map (\<lambda>(k, v). (k, if length v = 1 then v ! 0 else PList v))
          (fold (\<lambda>c. dd_append (strip_ns (tag c)) (put (value_of c))) chs [])"
  define a where "a = fold (\<lambda>(k, v). AList.update k v) (map (\<lambda>(k, v). (''@'' @ k, PStr v)) attrs) m"
  have t2: "''#text'' \<notin> fst ` set (map (\<lambda>(k, v). (''@'' @ k, PStr v)) attrs)"
    by auto
  have m: "map_of m ''#text'' = None"
    unfolding m_def by (simp add: map_of_collapse map_of_fold_dd_hash[OF assms])
  have "map_of a ''#text'' = map_of m ''#text''"
    unfolding a_def by (rule map_of_fold_update_other[OF t2])
  with m have a: "map_of a ''#text'' = None" by simp
  have v: "value_of (Elem tg attrs tx chs) =
     (if chs = [] \<and> attrs = [] then
        (case tx of None \<Rightarrow> PNone | Some s \<Rightarrow> if s = [] then PNone else PStr (strip s))
      else PDict ((case tx of None \<Rightarrow> (\<lambda>d. d)
            | Some s \<Rightarrow> if strip s \<noteq> [] then AList.update ''#text'' (PStr (strip s)) else (\<lambda>d. d)) a))"
    unfolding value_of_Elem a_def m_def put_def by simp
  show ?thesis
    unfolding v using a
    by (cases tx) (auto simp: py_get_def update_conv')
qed

theorem text_key_iff_witness:
  "py_get (value_of (Elem ''Grantee'' [(''type'', ''Group'')] (Some '' all '') [Elem ''URI'' [] (Some ''u'') []]))
      ''#text'' = Some (PStr (strip '' all '')) \<and>
   strip '' all '' = ''all'' \<and>
   value_of (Elem ''Key'' [] (Some '' a.txt '') []) = PStr ''a.txt'' \<and>
   value_of (Elem ''Prefix'' [] None []) = PNone"
proof -
  have s: "strip '' all '' = ''all''" "strip '' a.txt '' = ''a.txt''"
    by code_simp+
  have h: "\<forall>c \<in> set [Elem ''URI'' [] (Some ''u'') []]. strip_ns (tag c) \<noteq> ''#text''"
    by code_simp
  have h0: "\<forall>c \<in> set ([] :: elem list). strip_ns (tag c) \<noteq> ''#text''"
    by simp
  from text_key_iff[OF h, where tg = "''Grantee''" and attrs = "[(''type'', ''Group'')]" and tx = "Some '' all ''"]
       text_key_iff[OF h0, where tg = "''Key''" and attrs = "[]" and tx = "Some '' a.txt ''"]
       text_key_iff[OF h0, where tg = "''Prefix''" and attrs = "[]" and tx = None]
  show ?thesis using s by simp
qed

section \<open>\<^verbatim>\<open>etree_to_dict\<close> computes the nested mapping\<close>

text \<open>
  The loop over \<^verbatim>\<open>dd\<close> builds the groups in the order in which the tags are first seen, each
  with its children's values in document order, so the value \<^verbatim>\<open>etree_to_dict\<close> binds to the
  stripped tag is the nested mapping of the element.
\<close>

lemma assoc_list_by_keys:
  "distinct (map fst xs) \<Longrightarrow> xs = map (\<lambda>k. (k, the (map_of xs k))) (map fst xs)"
proof (induction xs)
  case Nil
  show ?case by simp
next
  case (Cons p xs)
  obtain k v where p: "p = (k, v)" by (cases p)
  from Cons.prems p have k: "k \<notin> fst ` set xs" and d: "distinct (map fst xs)" by auto
  have "map (\<lambda>k'. (k', the (map_of ((k, v) # xs) k'))) (map fst xs) =
        map (\<lambda>k'. (k', the (map_of xs k'))) (map fst xs)"
    using k by (intro map_cong) auto
  with Cons.IH[OF d] p show ?case by simp
qed

lemma dd_append_keys:
  "map fst (dd_append k x dd) = (if k \<in> set (map fst dd) then map fst dd else map fst dd @ [k])"
  by (simp add: dd_append_def update_keys)

lemma fold_dd_append_keys:
  "map fst (fold (\<lambda>c. dd_append (k c) (f c)) cs dd) =
     fold (\<lambda>x seen. if x \<in> set seen then seen else seen @ [x]) (map k cs) (map fst dd)"
proof (induction cs arbitrary: dd)
  case Nil
  show ?case by simp
next
  case (Cons c cs)
  show ?case
    by (simp add: Cons.IH dd_append_keys del: set_map)
qed

lemma fold_dd_append_distinct:
  "distinct (map fst dd) \<Longrightarrow> distinct (map fst (fold (\<lambda>c. dd_append (k c) (f c)) cs dd))"
  by (induction cs arbitrary: dd) (simp_all add: dd_append_def distinct_update)

lemma fold_dd_append_groups:
  "fold (\<lambda>c. dd_append (k c) (f c)) cs [] =
     map (\<lambda>t. (t, map f (filter (\<lambda>c. k c = t) cs))) (first_seen (map k cs))"
proof -
  let ?dd = "fold (\<lambda>c. dd_append (k c) (f c)) cs []"
  have keys: "map fst ?dd = first_seen (map k cs)"
    using fold_dd_append_keys[of k f cs "[]"] by (simp add: first_seen_def)
  have d: "distinct (map fst ?dd)"
    by (rule fold_dd_append_distinct) simp
  have v: "the (map_of ?dd t) = map f (filter (\<lambda>c. k c = t) cs)" if "t \<in> set (map fst ?dd)" for t
  proof -
    from that have "map_of ?dd t \<noteq> None"
      by (simp add: map_of_eq_None_iff)
    then have "filter (\<lambda>c. k c = t) cs \<noteq> []"
      by (auto simp: map_of_fold_dd_append split: if_splits)
    then show ?thesis by (simp add: map_of_fold_dd_append)
  qed
  have "?dd = map (\<lambda>t. (t, the (map_of ?dd t))) (map fst ?dd)"
    by (rule assoc_list_by_keys[OF d])
  also have "\<dots> = map (\<lambda>t. (t, map f (filter (\<lambda>c. k c = t) cs))) (map fst ?dd)"
    using v by (intro map_cong) auto
  finally show ?thesis unfolding keys .
qed

lemma group_of_pairs:
  "map snd (filter (\<lambda>p. fst p = t) (map (\<lambda>c. (k c, f c)) cs)) = map f (filter (\<lambda>c. k c = t) cs)"
  by (induction cs) auto

lemma nth_0_hd: "length v = Suc 0 \<Longrightarrow> v ! 0 = hd v"
  by (cases v) auto

lemma first_seen_acc:
  "distinct acc \<Longrightarrow>
   distinct (fold (\<lambda>x seen. if x \<in> set seen then seen else seen @ [x]) xs acc) \<and>
   set (fold (\<lambda>x seen. if x \<in> set seen then seen else seen @ [x]) xs acc) = set acc \<union> set xs"
  by (induction xs arbitrary: acc) auto

lemma first_seen_distinct: "distinct (first_seen xs) \<and> set (first_seen xs) = set xs"
  using first_seen_acc[of "[]" xs] by (simp add: first_seen_def)

lemma value_of_nested_mapping: "value_of e = nested_mapping e"
proof (induction e)
  case (Elem tg attrs tx chs)
  define put where "put = (if strip_ns (tag (hd chs)) = ''Rule'' then (\<lambda>v. PList [v]) else (\<lambda>v. v))"
  define k where "k = (\<lambda>c. strip_ns (tag c))"
  define G where "G = (\<lambda>t. map (\<lambda>c. put (nested_mapping c)) (filter (\<lambda>c. k c = t) chs))"
  have ih: "(\<lambda>c. dd_append (k c) (put (value_of c))) c = (\<lambda>c. dd_append (k c) (put (nested_mapping c))) c"
    if "c \<in> set chs" for c
    using Elem.IH[OF that] by simp
  have "fold (\<lambda>c. dd_append (k c) (put (value_of c))) chs [] =
        fold (\<lambda>c. dd_append (k c) (put (nested_mapping c))) chs []"
    by (rule fold_cong) (use ih in auto)
  also have "\<dots> = map (\<lambda>t. (t, G t)) (first_seen (map k chs))"
    unfolding G_def by (rule fold_dd_append_groups)
  finally have dd: "fold (\<lambda>c. dd_append (k c) (put (value_of c))) chs [] =
        map (\<lambda>t. (t, G t)) (first_seen (map k chs))" .
  have m: "map (\<lambda>(k, v). (k, if length v = 1 then v ! 0 else PList v))
             (fold (\<lambda>c. dd_append (k c) (put (value_of c))) chs []) =
           map (\<lambda>t. (t, if length (G t) = 1 then hd (G t) else PList (G t))) (first_seen (map k chs))"
    unfolding dd by (simp add: nth_0_hd o_def)
  have cv: "map (\<lambda>c. (strip_ns (tag c),
                       if strip_ns (tag (hd chs)) = ''Rule'' then PList [nested_mapping c]
                       else nested_mapping c)) chs = map (\<lambda>c. (k c, put (nested_mapping c))) chs"
    by (simp add: k_def put_def)
  have g: "map snd (filter (\<lambda>p. fst p = t) (map (\<lambda>c. (k c, put (nested_mapping c))) chs)) = G t" for t
    unfolding G_def by (rule group_of_pairs)
  have f: "map fst (map (\<lambda>c. (k c, put (nested_mapping c))) chs) = map k chs"
    by simp
  have n: "nested_mapping (Elem tg attrs tx chs) =
     (if chs = [] \<and> attrs = [] then
        (case tx of None \<Rightarrow> PNone | Some s \<Rightarrow> if s = [] then PNone else PStr (strip s))
      else PDict (merge_entries
                    (case tx of None \<Rightarrow> []
                     | Some s \<Rightarrow> if strip s \<noteq> [] then [(''#text'', PStr (strip s))] else [])
                    (merge_entries (map (\<lambda>(k, v). (''@'' @ k, PStr v)) attrs)
                       (map (\<lambda>t. (t, if length (G t) = 1 then hd (G t) else PList (G t)))
                          (first_seen (map k chs))))))"
    unfolding nested_mapping.simps Let_def cv g f by (rule refl)
  have v: "value_of (Elem tg attrs tx chs) =
     (if chs = [] \<and> attrs = [] then
        (case tx of None \<Rightarrow> PNone | Some s \<Rightarrow> if s = [] then PNone else PStr (strip s))
      else PDict ((case tx of None \<Rightarrow> (\<lambda>d. d)
            | Some s \<Rightarrow> if strip s \<noteq> [] then AList.update ''#text'' (PStr (strip s)) else (\<lambda>d. d))
           (fold (\<lambda>(k, v). AList.update k v) (map (\<lambda>(k, v). (''@'' @ k, PStr v)) attrs)
             (map (\<lambda>t. (t, if length (G t) = 1 then hd (G t) else PList (G t))) (first_seen (map k chs))))))"
    unfolding value_of_Elem m[unfolded k_def put_def] by (simp add: k_def)
  show ?case
    unfolding v n by (cases tx) (simp_all add: merge_entries_def)
qed

section \<open>The keys of a document in one namespace\<close>

lemma set_update_subset: "set (AList.update k v al) \<subseteq> insert (k, v) (set al)"
  by (induction al) auto

lemma fold_dd_append_inv:
  assumes "\<forall>kv \<in> set dd. K (fst kv) \<and> (\<forall>v \<in> set (snd kv). V v)"
    and "\<forall>c \<in> set cs. K (k c) \<and> V (f c)"
  shows "\<forall>kv \<in> set (fold (\<lambda>c. dd_append (k c) (f c)) cs dd). K (fst kv) \<and> (\<forall>v \<in> set (snd kv). V v)"
  using assms
proof (induction cs arbitrary: dd)
  case Nil
  then show ?case by simp
next
  case (Cons c cs)
  have "\<forall>kv \<in> set (dd_append (k c) (f c) dd). K (fst kv) \<and> (\<forall>v \<in> set (snd kv). V v)"
  proof
    fix kv assume "kv \<in> set (dd_append (k c) (f c) dd)"
    then have "kv = (k c, (case map_of dd (k c) of None \<Rightarrow> [] | Some xs \<Rightarrow> xs) @ [f c]) \<or> kv \<in> set dd"
      unfolding dd_append_def using set_update_subset by fastforce
    then show "K (fst kv) \<and> (\<forall>v \<in> set (snd kv). V v)"
    proof
      assume e: "kv = (k c, (case map_of dd (k c) of None \<Rightarrow> [] | Some xs \<Rightarrow> xs) @ [f c])"
      have "\<forall>v \<in> set (case map_of dd (k c) of None \<Rightarrow> [] | Some xs \<Rightarrow> xs). V v"
      proof (cases "map_of dd (k c)")
        case None
        then show ?thesis by simp
      next
        case (Some xs)
        then have "(k c, xs) \<in> set dd" by (rule map_of_SomeD)
        with Cons.prems(1) Some show ?thesis by auto
      qed
      with e Cons.prems(2) show ?thesis by auto
    next
      assume "kv \<in> set dd"
      with Cons.prems(1) show ?thesis by blast
    qed
  qed
  with Cons.IH[of "dd_append (k c) (f c) dd"] Cons.prems(2) show ?case by simp
qed

lemma fold_update_inv:
  assumes "\<forall>kv \<in> set kvs. R kv" and "\<forall>kv \<in> set new. R kv"
  shows "\<forall>kv \<in> set (fold (\<lambda>(k, v). AList.update k v) new kvs). R kv"
  using assms
proof (induction new arbitrary: kvs)
  case Nil
  then show ?case by simp
next
  case (Cons p new)
  obtain k v where p: "p = (k, v)" by (cases p)
  have "\<forall>kv \<in> set (AList.update k v kvs). R kv"
    using set_update_subset[of k v kvs] Cons.prems p by auto
  with Cons.IH[of "AList.update k v kvs"] Cons.prems(2) p show ?case by simp
qed

lemma single_namespace_tag:
  "single_namespace e \<Longrightarrow> local_name (strip_ns (tag e))"
proof (cases e)
  case (Elem tg attrs tx chs)
  assume "single_namespace e"
  with Elem have "local_name tg \<or>
      (prefix (''{'' @ S3_NAMESPACE @ ''}'') tg \<and> local_name (drop (length (''{'' @ S3_NAMESPACE @ ''}'')) tg))"
    by simp
  then show ?thesis
  proof
    assume "local_name tg"
    with Elem show ?thesis by (simp add: strip_ns_local)
  next
    assume a: "prefix (''{'' @ S3_NAMESPACE @ ''}'') tg \<and> local_name (drop (length (''{'' @ S3_NAMESPACE @ ''}'')) tg)"
    then obtain l where l: "tg = (''{'' @ S3_NAMESPACE @ ''}'') @ l"
      by (auto simp: prefix_def)
    with a have "local_name l" by simp
    with l Elem show ?thesis using strip_ns_qualified[of l] by simp
  qed
qed

lemma all_keys_PDict:
  "(\<forall>k \<in> set (all_keys (PDict kvs)). P k) \<longleftrightarrow> (\<forall>kv \<in> set kvs. P (fst kv) \<and> (\<forall>k \<in> set (all_keys (snd kv)). P k))"
  by auto

lemma keys_local_or_attrib:
  "single_namespace e \<Longrightarrow> set (attrib_names e) \<subseteq> A \<Longrightarrow>
   \<forall>k \<in> set (all_keys (value_of e)). local_name k \<or> (\<exists>a \<in> A. k = CHR ''@'' # a)"
proof (induction e)
  case (Elem tg attrs tx chs)
  define put where "put = (if strip_ns (tag (hd chs)) = ''Rule'' then (\<lambda>v. PList [v]) else (\<lambda>v. v))"
  define P where "P = (\<lambda>k. local_name k \<or> (\<exists>a \<in> A. k = CHR ''@'' # a))"
  define Q where "Q = (\<lambda>v. \<forall>k \<in> set (all_keys v). P k)"
  define R where "R = (\<lambda>kv :: string \<times> pyval. P (fst kv) \<and> Q (snd kv))"
  define dd where "dd = fold (\<lambda>c. dd_append (strip_ns (tag c)) (put (value_of c))) chs []"
  define m where "m = map (\<lambda>(k, v). (k, if length v = 1 then v ! 0 else PList v)) dd"
  define a where "a = fold (\<lambda>(k, v). AList.update k v) (map (\<lambda>(k, v). (''@'' @ k, PStr v)) attrs) m"
  have ch: "\<forall>c \<in> set chs. P (strip_ns (tag c)) \<and> Q (put (value_of c))"
  proof
    fix c assume c: "c \<in> set chs"
    with Elem.prems have s: "single_namespace c" by simp
    from c Elem.prems(2) have sub: "set (attrib_names c) \<subseteq> A" by auto
    from Elem.IH[OF c s sub] have "Q (value_of c)" by (simp add: Q_def P_def)
    then have "Q (put (value_of c))" by (simp add: put_def Q_def)
    with single_namespace_tag[OF s] show "P (strip_ns (tag c)) \<and> Q (put (value_of c))" by (simp add: P_def)
  qed
  have dd: "\<forall>kv \<in> set dd. P (fst kv) \<and> (\<forall>v \<in> set (snd kv). Q v)"
    unfolding dd_def by (rule fold_dd_append_inv) (use ch in simp_all)
  have m: "\<forall>kv \<in> set m. R kv"
  proof
    fix kv assume "kv \<in> set m"
    then obtain k vs where kv: "kv = (k, if length vs = 1 then vs ! 0 else PList vs)" and i: "(k, vs) \<in> set dd"
      unfolding m_def by auto
    from dd i have l: "P k" and q: "\<forall>v \<in> set vs. Q v" by auto
    have "Q (if length vs = 1 then vs ! 0 else PList vs)"
    proof (cases "length vs = 1")
      case True
      then have "vs ! 0 \<in> set vs" by (cases vs) auto
      with q True show ?thesis by simp
    next
      case False
      with q show ?thesis by (auto simp: Q_def)
    qed
    with l kv show "R kv" by (simp add: R_def)
  qed
  have at: "\<forall>kv \<in> set (map (\<lambda>(k, v). (''@'' @ k, PStr v)) attrs). R kv"
    using Elem.prems(2) by (auto simp: R_def Q_def P_def)
  have a: "\<forall>kv \<in> set a. R kv"
    unfolding a_def by (rule fold_update_inv[OF m at])
  have tx: "\<forall>kv \<in> set (AList.update ''#text'' (PStr s) a). R kv" for s
    using set_update_subset[of "''#text''" "PStr s" a] a by (auto simp: R_def Q_def P_def local_name_def)
  have v: "value_of (Elem tg attrs tx chs) =
     (if chs = [] \<and> attrs = [] then
        (case tx of None \<Rightarrow> PNone | Some s \<Rightarrow> if s = [] then PNone else PStr (strip s))
      else PDict ((case tx of None \<Rightarrow> (\<lambda>d. d)
            | Some s \<Rightarrow> if strip s \<noteq> [] then AList.update ''#text'' (PStr (strip s)) else (\<lambda>d. d)) a))"
    unfolding value_of_Elem a_def m_def dd_def put_def by simp
  have "Q (value_of (Elem tg attrs tx chs))"
  proof (cases "chs = [] \<and> attrs = []")
    case True
    then show ?thesis unfolding v by (simp add: Q_def split: option.splits)
  next
    case False
    have "\<forall>kv \<in> set ((case tx of None \<Rightarrow> (\<lambda>d. d)
            | Some s \<Rightarrow> if strip s \<noteq> [] then AList.update ''#text'' (PStr (strip s)) else (\<lambda>d. d)) a). R kv"
      using a tx by (simp split: option.splits)
    then have "Q (PDict ((case tx of None \<Rightarrow> (\<lambda>d. d)
            | Some s \<Rightarrow> if strip s \<noteq> [] then AList.update ''#text'' (PStr (strip s)) else (\<lambda>d. d)) a))"
      unfolding Q_def all_keys_PDict R_def Q_def by simp
    with False show ?thesis unfolding v by auto
  qed
  then show ?case by (simp add: Q_def P_def)
qed

lemma local_name_not_sublist:
  "local_name k \<Longrightarrow> \<not> sublist (''{'' @ S3_NAMESPACE @ ''}'') k"
proof
  assume l: "local_name k" and s: "sublist (''{'' @ S3_NAMESPACE @ ''}'') k"
  from s have "set (''{'' @ S3_NAMESPACE @ ''}'') \<subseteq> set k" by (rule set_mono_sublist)
  with l show False by (simp add: local_name_def)
qed

lemma sublist_at_key:
  "sublist (''{'' @ S3_NAMESPACE @ ''}'') (CHR ''@'' # a) \<Longrightarrow> sublist (''{'' @ S3_NAMESPACE @ ''}'') a"
  by (simp add: sublist_Cons_right)

text \<open>
  C9 (as amended). When the parser returns a tree whose tags are local names or local names
  qualified by the protocol's namespace, \<^verbatim>\<open>xml_to_dict\<close> returns the dictionary of
  \<^verbatim>\<open>etree_to_dict\<close>, and a key of it, at any depth, contains the namespace prefix
  \<^verbatim>\<open>{http://s3.amazonaws.com/doc/2006-03-01/}\<close> only if it is the key \<^verbatim>\<open>@name\<close> of an attribute
  whose name, as the parser hands it over, contains the prefix. So no key that comes from a
  tag contains the prefix, and none at all when the attributes are unqualified.
\<close>

theorem namespace_stripped_from_tag_keys:
  assumes "XML in_xml = Inr e" and "single_namespace e"
  shows "\<exists>d. xml_to_dict XML in_xml = Inr d \<and> etree_to_dict e = Inr (d, strip_tags e) \<and>
             (\<forall>k \<in> set (all_keys d).
                sublist (''{'' @ S3_NAMESPACE @ ''}'') k \<longrightarrow>
                (\<exists>a \<in> set (attrib_names e). k = ''@'' @ a \<and> sublist (''{'' @ S3_NAMESPACE @ ''}'') a))"
proof -
  let ?ns = "''{'' @ S3_NAMESPACE @ ''}''"
  let ?d = "PDict [(strip_ns (tag e), value_of e)]"
  have 1: "etree_to_dict e = Inr (?d, strip_tags e)" by (rule etree_to_dict_eq)
  with assms(1) have 2: "xml_to_dict XML in_xml = Inr ?d" by (simp add: xml_to_dict_def)
  have k: "\<forall>k \<in> set (all_keys ?d). local_name k \<or> (\<exists>a \<in> set (attrib_names e). k = CHR ''@'' # a)"
    using keys_local_or_attrib[OF assms(2), of "set (attrib_names e)"] single_namespace_tag[OF assms(2)]
    by simp
  have 3: "\<forall>k \<in> set (all_keys ?d). sublist ?ns k \<longrightarrow>
                (\<exists>a \<in> set (attrib_names e). k = ''@'' @ a \<and> sublist ?ns a)"
  proof (intro ballI impI)
    fix k assume i: "k \<in> set (all_keys ?d)" and s: "sublist ?ns k"
    from k i have "local_name k \<or> (\<exists>a \<in> set (attrib_names e). k = CHR ''@'' # a)" by blast
    with s local_name_not_sublist[of k] obtain a where a: "a \<in> set (attrib_names e)" "k = CHR ''@'' # a"
      by blast
    from s a(2) have "sublist ?ns a" using sublist_at_key by blast
    with a show "\<exists>a \<in> set (attrib_names e). k = ''@'' @ a \<and> sublist ?ns a" by auto
  qed
  from 1 2 3 show ?thesis by blast
qed

theorem namespace_stripped_from_tag_keys_witness:
  "xml_to_dict
     (\<lambda>b. Inr (Elem ''{http://s3.amazonaws.com/doc/2006-03-01/}CreateBucketConfiguration'' [(''id'', ''1'')] None
                  [Elem ''{http://s3.amazonaws.com/doc/2006-03-01/}LocationConstraint'' [] (Some ''us-west-1'') []]))
     ''<CreateBucketConfiguration/>'' =
   Inr (PDict [(''CreateBucketConfiguration'',
                PDict [(''LocationConstraint'', PStr ''us-west-1''), (''@id'', PStr ''1'')])]) \<and>
   \<not> sublist (''{'' @ S3_NAMESPACE @ ''}'') ''CreateBucketConfiguration'' \<and>
   \<not> sublist (''{'' @ S3_NAMESPACE @ ''}'') ''LocationConstraint'' \<and>
   \<not> sublist (''{'' @ S3_NAMESPACE @ ''}'') ''@id''"
proof -
  let ?e = "Elem ''{http://s3.amazonaws.com/doc/2006-03-01/}CreateBucketConfiguration'' [(''id'', ''1'')] None
              [Elem ''{http://s3.amazonaws.com/doc/2006-03-01/}LocationConstraint'' [] (Some ''us-west-1'') []]"
  let ?d = "PDict [(''CreateBucketConfiguration'',
                PDict [(''LocationConstraint'', PStr ''us-west-1''), (''@id'', PStr ''1'')])]"
  have h: "single_namespace ?e" by code_simp
  have v: "etree_to_dict ?e = Inr (?d, strip_tags ?e)" by code_simp
  have n: "attrib_names ?e = [''id'']" by simp
  have i: "\<not> sublist (''{'' @ S3_NAMESPACE @ ''}'') ''id''" by code_simp
  from namespace_stripped_from_tag_keys[of "\<lambda>b. Inr ?e" "''<CreateBucketConfiguration/>''" ?e, OF refl h]
  obtain d where d: "xml_to_dict (\<lambda>b. Inr ?e) ''<CreateBucketConfiguration/>'' = Inr d"
      "etree_to_dict ?e = Inr (d, strip_tags ?e)"
      "\<forall>k \<in> set (all_keys d). sublist (''{'' @ S3_NAMESPACE @ ''}'') k \<longrightarrow>
         (\<exists>a \<in> set (attrib_names ?e). k = ''@'' @ a \<and> sublist (''{'' @ S3_NAMESPACE @ ''}'') a)"
    by blast
  from d(2) v have e: "d = ?d" by simp
  have "\<forall>k \<in> set (all_keys ?d). \<not> sublist (''{'' @ S3_NAMESPACE @ ''}'') k"
    using d(3) i unfolding e n by auto
  with d(1) show ?thesis unfolding e by simp
qed

text \<open>
  The claim as stated fails on a document with an attribute qualified by the protocol's
  namespace, such as \<^verbatim>\<open>s3:k\<close> under \<^verbatim>\<open>xmlns:s3\<close>: the parser hands the attribute's name over
  with the prefix, \<^verbatim>\<open>etree_to_dict\<close> strips tags only, and the key \<^verbatim>\<open>@name\<close> keeps the prefix.
\<close>

theorem qualified_attribute_counterexample:
  "etree_to_dict
     (Elem ''{http://s3.amazonaws.com/doc/2006-03-01/}Grant''
        [(''{http://s3.amazonaws.com/doc/2006-03-01/}k'', ''v'')] None
        [Elem ''{http://s3.amazonaws.com/doc/2006-03-01/}ID'' [] (Some ''x'') []]) =
   Inr (PDict [(''Grant'',
                PDict [(''ID'', PStr ''x''), ((''@'' @ ''{http://s3.amazonaws.com/doc/2006-03-01/}k''), PStr ''v'')])],
        Elem ''Grant'' [(''{http://s3.amazonaws.com/doc/2006-03-01/}k'', ''v'')] None
          [Elem ''ID'' [] (Some ''x'') []]) \<and>
   sublist (''{'' @ S3_NAMESPACE @ ''}'') (''@'' @ ''{http://s3.amazonaws.com/doc/2006-03-01/}k'')"
  by code_simp

section \<open>Parsing errors\<close>

text \<open>
  C6 (as amended). \<^verbatim>\<open>xml_to_dict\<close> raises exactly when the parser raises, and raises the
  parser's exception as it is: \<^verbatim>\<open>ParseError\<close> for an input that is not well-formed, and any
  other exception of the parser as well. When the parser returns a tree, \<^verbatim>\<open>xml_to_dict\<close>
  raises nothing and returns the dictionary that binds the root's stripped tag to the root's
  nested mapping.
\<close>

theorem xml_to_dict_passes_parser_result:
  "(\<forall>x. (xml_to_dict XML in_xml = Inl x) = (XML in_xml = Inl x)) \<and>
   (\<forall>elem. XML in_xml = Inr elem \<longrightarrow>
      xml_to_dict XML in_xml = Inr (PDict [(strip_ns (tag elem), nested_mapping elem)]))"
  by (cases "XML in_xml") (simp_all add: xml_to_dict_def etree_to_dict_eq value_of_nested_mapping)

theorem xml_to_dict_passes_parser_result_witness:
  "xml_to_dict (\<lambda>b. if b = ''<Key>a</Key>'' then Inr (Elem ''Key'' [] (Some ''a'') []) else Inl ParseError)
      ''<Key>a</Key'' = Inl ParseError \<and>
   xml_to_dict (\<lambda>b. if b = ''<Key>a</Key>'' then Inr (Elem ''Key'' [] (Some ''a'') []) else Inl ParseError)
      ''<Key>a</Key>'' = Inr (PDict [(''Key'', PStr ''a'')])"
proof -
  let ?XML = "\<lambda>b. if b = ''<Key>a</Key>'' then Inr (Elem ''Key'' [] (Some ''a'') []) else Inl ParseError"
  have v: "strip_ns ''Key'' = ''Key''" "nested_mapping (Elem ''Key'' [] (Some ''a'') []) = PStr ''a''"
    by code_simp+
  from xml_to_dict_passes_parser_result[of ?XML "''<Key>a</Key''"]
       xml_to_dict_passes_parser_result[of ?XML "''<Key>a</Key>''"]
  show ?thesis using v by simp
qed

text \<open>
  The claim as stated fails on a well-formed document that declares an encoding the parser
  does not know: \<^verbatim>\<open>ET.XML\<close> raises \<^verbatim>\<open>LookupError\<close> on it, and with a parser that does so
  \<^verbatim>\<open>xml_to_dict\<close> raises \<^verbatim>\<open>LookupError\<close>, which is neither \<^verbatim>\<open>ParseError\<close> nor a mapping.
\<close>

theorem unknown_encoding_counterexample:
  "xml_to_dict
     (\<lambda>b. if b = ''<?xml version='' @ [CHR 0x22] @ ''1.0'' @ [CHR 0x22] @ '' encoding='' @ [CHR 0x22] @
                   ''bogus'' @ [CHR 0x22] @ ''?><a/>''
           then Inl LookupError else Inl ParseError)
     (''<?xml version='' @ [CHR 0x22] @ ''1.0'' @ [CHR 0x22] @ '' encoding='' @ [CHR 0x22] @
      ''bogus'' @ [CHR 0x22] @ ''?><a/>'') = Inl LookupError \<and>
   LookupError \<noteq> ParseError"
  by (simp add: xml_to_dict_def)

section \<open>The trees the marshallers build\<close>

lemma SubElement_root:
  "SubElement (Elem tg attrs tx chs) [] tg' tx' = ([length chs], Elem tg attrs tx (chs @ [Elem tg' [] tx' []]))"
  by (simp add: SubElement_def)

lemma SubElement_child:
  assumes "i < length chs"
  shows "SubElement (Elem tg attrs tx chs) (i # p) tg' tx' =
           (i # fst (SubElement (chs ! i) p tg' tx'),
            Elem tg attrs tx (chs[i := snd (SubElement (chs ! i) p tg' tx')]))"
  using assms by (simp add: SubElement_def split: option.splits)

lemma SubElement_last:
  "SubElement (Elem tg attrs tx (chs @ [c])) (length chs # p) tg' tx' =
     (length chs # fst (SubElement c p tg' tx'),
      Elem tg attrs tx (chs @ [snd (SubElement c p tg' tx')]))"
  by (simp add: SubElement_child)

lemma delete_objects_loop:
  "fold (\<lambda>object_name root.
           let (object_element, root) = SubElement root [] ''Object'' None;
               (e2, root) = SubElement root object_element ''Key'' (Some object_name)
           in root)
     object_names (Elem tg attrs tx chs) =
   Elem tg attrs tx (chs @ map (\<lambda>n. Elem ''Object'' [] None [Elem ''Key'' [] (Some n) []]) object_names)"
  by (induction object_names arbitrary: chs) (simp_all add: SubElement_root SubElement_last)

lemma complete_multipart_loop:
  "fold (\<lambda>uploaded_part root.
           let (part, root) = SubElement root [] ''Part'' None;
               (e1, root) = SubElement root part ''PartNumber'' (Some (str_int (part_number uploaded_part)));
               (e2, root) = SubElement root part ''ETag'' (Some ([CHR 0x22] @ etag uploaded_part @ [CHR 0x22]))
           in root)
     uploaded_parts (Elem tg attrs tx chs) =
   Elem tg attrs tx
     (chs @ map (\<lambda>p. Elem ''Part'' [] None
                        [Elem ''PartNumber'' [] (Some (str_int (part_number p))) [],
                         Elem ''ETag'' [] (Some ([CHR 0x22] @ etag p @ [CHR 0x22])) []])
              uploaded_parts)"
  by (induction uploaded_parts arbitrary: chs) (simp_all add: SubElement_root SubElement_last)

text \<open>
  C8. For every list of object names the batch-delete marshaller writes the tree with the
  root \<^verbatim>\<open>Delete\<close>, whose first child is \<^verbatim>\<open>Quiet\<close> with the text \<^verbatim>\<open>true\<close>, followed by one
  \<^verbatim>\<open>Object\<close> with one \<^verbatim>\<open>Key\<close> child per name, in the order of the list, repeated names
  included; for the names \<^verbatim>\<open>a.txt\<close> and \<^verbatim>\<open>b.txt\<close> the bytes are those of the scenario.
\<close>

theorem delete_objects_document:
  "xml_marshal_delete_objects object_names =
     get_xml_data
       (Elem ''Delete'' [] None
          (Elem ''Quiet'' [] (Some ''true'') [] #
           map (\<lambda>n. Elem ''Object'' [] None [Elem ''Key'' [] (Some n) []]) object_names)) \<and>
   xml_marshal_delete_objects [''a.txt'', ''b.txt''] =
     ''<Delete><Quiet>true</Quiet><Object><Key>a.txt</Key></Object><Object><Key>b.txt</Key></Object></Delete>''"
proof
  show "xml_marshal_delete_objects object_names =
     get_xml_data
       (Elem ''Delete'' [] None
          (Elem ''Quiet'' [] (Some ''true'') [] #
           map (\<lambda>n. Elem ''Object'' [] None [Elem ''Key'' [] (Some n) []]) object_names))"
    using delete_objects_loop[of object_names _ _ _ "[Elem ''Quiet'' [] (Some ''true'') []]"]
    by (simp add: xml_marshal_delete_objects_def Element_def SubElement_root)
  show "xml_marshal_delete_objects [''a.txt'', ''b.txt''] =
     ''<Delete><Quiet>true</Quiet><Object><Key>a.txt</Key></Object><Object><Key>b.txt</Key></Object></Delete>''"
    by code_simp
qed

text \<open>
  C7. For every list of uploaded parts the complete-multipart-upload marshaller writes the
  tree with the namespaced root \<^verbatim>\<open>CompleteMultipartUpload\<close> and one \<^verbatim>\<open>Part\<close> per part, in the
  order of the list, each with a \<^verbatim>\<open>PartNumber\<close> and an \<^verbatim>\<open>ETag\<close> whose text is the digest
  between two double quotes (code point 34); for the parts (1, abc) and (2, def) the bytes
  hold the two \<^verbatim>\<open>Part\<close> elements in that order, the quotes included.
\<close>

theorem complete_multipart_upload_document:
  "xml_marshal_complete_multipart_upload uploaded_parts =
     get_xml_data
       (Elem ''CompleteMultipartUpload'' [(''xmlns'', S3_NAMESPACE)] None
          (map (\<lambda>p. Elem ''Part'' [] None
                       [Elem ''PartNumber'' [] (Some (str_int (part_number p))) [],
                        Elem ''ETag'' [] (Some ([CHR 0x22] @ etag p @ [CHR 0x22])) []])
             uploaded_parts)) \<and>
   xml_marshal_complete_multipart_upload
     [\<lparr>part_number = 1, etag = ''abc''\<rparr>, \<lparr>part_number = 2, etag = ''def''\<rparr>] =
     ''<CompleteMultipartUpload xmlns='' @ [CHR 0x22] @ ''http://s3.amazonaws.com/doc/2006-03-01/'' @ [CHR 0x22] @
     ''><Part><PartNumber>1</PartNumber><ETag>'' @ [CHR 0x22] @ ''abc'' @ [CHR 0x22] @ ''</ETag></Part>'' @
     ''<Part><PartNumber>2</PartNumber><ETag>'' @ [CHR 0x22] @ ''def'' @ [CHR 0x22] @ ''</ETag></Part>'' @
     ''</CompleteMultipartUpload>''"
proof
  show "xml_marshal_complete_multipart_upload uploaded_parts =
     get_xml_data
       (Elem ''CompleteMultipartUpload'' [(''xmlns'', S3_NAMESPACE)] None
          (map (\<lambda>p. Elem ''Part'' [] None
                       [Elem ''PartNumber'' [] (Some (str_int (part_number p))) [],
                        Elem ''ETag'' [] (Some ([CHR 0x22] @ etag p @ [CHR 0x22])) []])
             uploaded_parts))"
    using complete_multipart_loop[of uploaded_parts _ _ _ "[]"]
    by (simp add: xml_marshal_complete_multipart_upload_def Element_def)
  show "xml_marshal_complete_multipart_upload
     [\<lparr>part_number = 1, etag = ''abc''\<rparr>, \<lparr>part_number = 2, etag = ''def''\<rparr>] =
     ''<CompleteMultipartUpload xmlns='' @ [CHR 0x22] @ ''http://s3.amazonaws.com/doc/2006-03-01/'' @ [CHR 0x22] @
     ''><Part><PartNumber>1</PartNumber><ETag>'' @ [CHR 0x22] @ ''abc'' @ [CHR 0x22] @ ''</ETag></Part>'' @
     ''<Part><PartNumber>2</PartNumber><ETag>'' @ [CHR 0x22] @ ''def'' @ [CHR 0x22] @ ''</ETag></Part>'' @
     ''</CompleteMultipartUpload>''"
    by code_simp
qed

text \<open>
  C5. For every rule list whose first rule has the key
  \<^verbatim>\<open>ApplyServerSideEncryptionByDefault\<close>, the bucket-encryption marshaller writes one \<^verbatim>\<open>Rule\<close>
  with one \<^verbatim>\<open>ApplyServerSideEncryptionByDefault\<close>, built from the first rule alone: the text of
  \<^verbatim>\<open>SSEAlgorithm\<close> is the rule's algorithm, or \<^verbatim>\<open>AES256\<close> when the rule names none, and
  \<^verbatim>\<open>KMSMasterKeyID\<close> is there only when the rule has a key id that is not empty.
\<close>

theorem bucket_encryption_first_rule:
  assumes "r ''ApplyServerSideEncryptionByDefault'' = Some cfg"
  shows "xml_marshal_bucket_encryption (r # rs) =
     Inr (get_xml_data
       (Elem ''ServerSideEncryptionConfiguration'' [] None
          [Elem ''Rule'' [] None
             [Elem ''ApplyServerSideEncryptionByDefault'' [] None
                (Elem ''SSEAlgorithm'' [] (Some (case cfg ''SSEAlgorithm'' of None \<Rightarrow> ''AES256'' | Some a \<Rightarrow> a)) [] #
                 (case cfg ''KMSMasterKeyID'' of
                    None \<Rightarrow> []
                  | Some k \<Rightarrow> if k = [] then [] else [Elem ''KMSMasterKeyID'' [] (Some k) []]))]]))"
  using assms
  by (simp add: xml_marshal_bucket_encryption_def Element_def SubElement_root SubElement_child
        split: option.splits)

theorem bucket_encryption_first_rule_witness:
  "xml_marshal_bucket_encryption
     [[''ApplyServerSideEncryptionByDefault'' \<mapsto> Map.empty],
      [''ApplyServerSideEncryptionByDefault'' \<mapsto> [''SSEAlgorithm'' \<mapsto> ''aws:kms'', ''KMSMasterKeyID'' \<mapsto> ''key'']]] =
   Inr (''<ServerSideEncryptionConfiguration><Rule><ApplyServerSideEncryptionByDefault>'' @
        ''<SSEAlgorithm>AES256</SSEAlgorithm>'' @
        ''</ApplyServerSideEncryptionByDefault></Rule></ServerSideEncryptionConfiguration>'')"
proof -
  have h: "[''ApplyServerSideEncryptionByDefault'' \<mapsto> (Map.empty :: string \<rightharpoonup> string)]
             ''ApplyServerSideEncryptionByDefault'' = Some Map.empty"
    by simp
  have b: "get_xml_data
       (Elem ''ServerSideEncryptionConfiguration'' [] None
          [Elem ''Rule'' [] None
             [Elem ''ApplyServerSideEncryptionByDefault'' [] None
                [Elem ''SSEAlgorithm'' [] (Some ''AES256'') []]]]) =
        ''<ServerSideEncryptionConfiguration><Rule><ApplyServerSideEncryptionByDefault>'' @
        ''<SSEAlgorithm>AES256</SSEAlgorithm>'' @
        ''</ApplyServerSideEncryptionByDefault></Rule></ServerSideEncryptionConfiguration>''"
    by code_simp
  from bucket_encryption_first_rule[where r = "[''ApplyServerSideEncryptionByDefault'' \<mapsto> Map.empty]"
        and cfg = Map.empty, OF h] b
  show ?thesis by simp
qed

lemma select_tree:
  "xml_marshal_select opts =
     get_xml_data
       (Elem ''SelectObjectContentRequest'' [] None
          [Elem ''Expression'' [] (Some (expression opts)) [],
           Elem ''ExpressionType'' [] (Some ''SQL'') [],
           Elem ''InputSerialization'' [] None
             (Elem ''CompressionType'' [] (Some (compression_type (in_ser opts))) [] #
              (case csv_input (in_ser opts) of
                 None \<Rightarrow> []
               | Some ci \<Rightarrow>
                   [Elem ''CSV'' [] None
                      [Elem ''FileHeaderInfo'' [] (Some (FileHeaderInfo ci)) [],
                       Elem ''RecordDelimiter'' [] (Some (RecordDelimiter ci)) [],
                       Elem ''FieldDelimiter'' [] (Some (FieldDelimiter ci)) [],
                       Elem ''QuoteCharacter'' [] (Some (QuoteCharacter ci)) [],
                       Elem ''QuoteEscapeCharacter'' [] (Some (QuoteEscapeCharacter ci)) [],
                       Elem ''Comments'' [] (Some (Comments ci)) [],
                       Elem ''AllowQuotedRecordDelimiter'' [] (Some (lower (AllowQuotedRecordDelimiter ci))) []]]) @
              (case json_input (in_ser opts) of
                 None \<Rightarrow> []
               | Some ji \<Rightarrow> [Elem ''JSON'' [] None [Elem ''Type'' [] (Some (Type ji)) []]]) @
              (case parquet_input (in_ser opts) of
                 None \<Rightarrow> []
               | Some pi \<Rightarrow> [Elem ''Parquet'' [] None []])),
           Elem ''OutputSerialization'' [] None
             ((case csv_output (out_ser opts) of
                 None \<Rightarrow> []
               | Some co \<Rightarrow>
                   [Elem ''CSV'' [] None
                      [Elem ''QuoteFields'' [] (Some (QuoteFields co)) [],
                       Elem ''RecordDelimiter'' [] (Some (out_RecordDelimiter co)) [],
                       Elem ''FieldDelimiter'' [] (Some (out_FieldDelimiter co)) [],
                       Elem ''QuoteCharacter'' [] (Some (out_QuoteCharacter co)) [],
                       Elem ''QuoteEscapeCharacter'' [] (Some (out_QuoteEscapeCharacter co)) []]]) @
              (case json_output (out_ser opts) of
                 None \<Rightarrow> []
               | Some jo \<Rightarrow>
                   [Elem ''JSON'' [] None [Elem ''RecordDelimiter'' [] (Some (json_RecordDelimiter jo)) []]])),
           Elem ''RequestProgress'' [] None
             [Elem ''Enabled'' [] (Some (lower (enabled (req_progress opts)))) []]])"
  by (simp add: xml_marshal_select_def Element_def SubElement_root SubElement_child
        split: option.splits)

lemma xmlcharrefreplace_append:
  "xmlcharrefreplace (a @ b) = xmlcharrefreplace a @ xmlcharrefreplace b"
  by (simp add: xmlcharrefreplace_def)

lemma serialize_xml_first_child:
  "\<exists>post. serialize_xml (Elem tg [] None (Elem tg' [] tx' chs' # cs)) = ''<'' @ tg @ ''><'' @ tg' @ post"
  by simp

lemma get_xml_data_third_child:
  assumes "serialize_xml c = lit @ post"
  shows "\<exists>ps ss. get_xml_data (Elem tg [] None [a, b, c, d, e]) = ps @ xmlcharrefreplace lit @ ss"
proof -
  have "serialize_xml (Elem tg [] None [a, b, c, d, e]) =
          (''<'' @ tg @ ''>'' @ serialize_xml a @ serialize_xml b) @ lit @
          (post @ serialize_xml d @ serialize_xml e @ ''</'' @ tg @ ''>'')"
    using assms by simp
  then have "get_xml_data (Elem tg [] None [a, b, c, d, e]) =
          xmlcharrefreplace (''<'' @ tg @ ''>'' @ serialize_xml a @ serialize_xml b) @ xmlcharrefreplace lit @
          xmlcharrefreplace (post @ serialize_xml d @ serialize_xml e @ ''</'' @ tg @ ''>'')"
    unfolding get_xml_data_def by (simp only: xmlcharrefreplace_append)
  then show ?thesis by blast
qed

lemma select_bytes:
  "sublist ''<InputSerialization><CompressionType'' (xml_marshal_select opts)"
proof -
  obtain post where p: "serialize_xml
      (Elem ''InputSerialization'' [] None
             (Elem ''CompressionType'' [] (Some (compression_type (in_ser opts))) [] #
              (case csv_input (in_ser opts) of
                 None \<Rightarrow> []
               | Some ci \<Rightarrow>
                   [Elem ''CSV'' [] None
                      [Elem ''FileHeaderInfo'' [] (Some (FileHeaderInfo ci)) [],
                       Elem ''RecordDelimiter'' [] (Some (RecordDelimiter ci)) [],
                       Elem ''FieldDelimiter'' [] (Some (FieldDelimiter ci)) [],
                       Elem ''QuoteCharacter'' [] (Some (QuoteCharacter ci)) [],
                       Elem ''QuoteEscapeCharacter'' [] (Some (QuoteEscapeCharacter ci)) [],
                       Elem ''Comments'' [] (Some (Comments ci)) [],
                       Elem ''AllowQuotedRecordDelimiter'' [] (Some (lower (AllowQuotedRecordDelimiter ci))) []]]) @
              (case json_input (in_ser opts) of
                 None \<Rightarrow> []
               | Some ji \<Rightarrow> [Elem ''JSON'' [] None [Elem ''Type'' [] (Some (Type ji)) []]]) @
              (case parquet_input (in_ser opts) of
                 None \<Rightarrow> []
               | Some pi \<Rightarrow> [Elem ''Parquet'' [] None []]))) = ''<InputSerialization><CompressionType'' @ post"
    using serialize_xml_first_child[of "''InputSerialization''" "''CompressionType''"] by fastforce
  have l: "xmlcharrefreplace ''<InputSerialization><CompressionType'' = ''<InputSerialization><CompressionType''"
    by code_simp
  show ?thesis
    unfolding select_tree sublist_def
    using get_xml_data_third_child[OF p] unfolding l by blast
qed

text \<open>
  C10. For every options object, whichever of the CSV, JSON and Parquet inputs are there, the
  select marshaller writes \<^verbatim>\<open>CompressionType\<close> as the first child of \<^verbatim>\<open>InputSerialization\<close>,
  before the variants' blocks, and the bytes contain
  \<^verbatim>\<open><InputSerialization><CompressionType\<close>.
\<close>

theorem select_compression_type_first:
  "xml_marshal_select opts =
     get_xml_data
       (Elem ''SelectObjectContentRequest'' [] None
          [Elem ''Expression'' [] (Some (expression opts)) [],
           Elem ''ExpressionType'' [] (Some ''SQL'') [],
           Elem ''InputSerialization'' [] None
             (Elem ''CompressionType'' [] (Some (compression_type (in_ser opts))) [] #
              (case csv_input (in_ser opts) of
                 None \<Rightarrow> []
               | Some ci \<Rightarrow>
                   [Elem ''CSV'' [] None
                      [Elem ''FileHeaderInfo'' [] (Some (FileHeaderInfo ci)) [],
                       Elem ''RecordDelimiter'' [] (Some (RecordDelimiter ci)) [],
                       Elem ''FieldDelimiter'' [] (Some (FieldDelimiter ci)) [],
                       Elem ''QuoteCharacter'' [] (Some (QuoteCharacter ci)) [],
                       Elem ''QuoteEscapeCharacter'' [] (Some (QuoteEscapeCharacter ci)) [],
                       Elem ''Comments'' [] (Some (Comments ci)) [],
                       Elem ''AllowQuotedRecordDelimiter'' [] (Some (lower (AllowQuotedRecordDelimiter ci))) []]]) @
              (case json_input (in_ser opts) of
                 None \<Rightarrow> []
               | Some ji \<Rightarrow> [Elem ''JSON'' [] None [Elem ''Type'' [] (Some (Type ji)) []]]) @
              (case parquet_input (in_ser opts) of
                 None \<Rightarrow> []
               | Some pi \<Rightarrow> [Elem ''Parquet'' [] None []])),
           Elem ''OutputSerialization'' [] None
             ((case csv_output (out_ser opts) of
                 None \<Rightarrow> []
               | Some co \<Rightarrow>
                   [Elem ''CSV'' [] None
                      [Elem ''QuoteFields'' [] (Some (QuoteFields co)) [],
                       Elem ''RecordDelimiter'' [] (Some (out_RecordDelimiter co)) [],
                       Elem ''FieldDelimiter'' [] (Some (out_FieldDelimiter co)) [],
                       Elem ''QuoteCharacter'' [] (Some (out_QuoteCharacter co)) [],
                       Elem ''QuoteEscapeCharacter'' [] (Some (out_QuoteEscapeCharacter co)) []]]) @
              (case json_output (out_ser opts) of
                 None \<Rightarrow> []
               | Some jo \<Rightarrow>
                   [Elem ''JSON'' [] None [Elem ''RecordDelimiter'' [] (Some (json_RecordDelimiter jo)) []]])),
           Elem ''RequestProgress'' [] None
             [Elem ''Enabled'' [] (Some (lower (enabled (req_progress opts)))) []]]) \<and>
   sublist ''<InputSerialization><CompressionType'' (xml_marshal_select opts)"
  using select_tree[of opts] select_bytes[of opts] by (rule conjI)

end
